theory Spec2Isabelle
  imports Main "HOL-Library.AList" "HOL-Library.Sublist"
begin

section \<open>JavaScript values, rows and store keys\<close>

text \<open>
  The offline cache of the application (\<^verbatim>\<open>js/cache.js\<close>), the paginated gateway clients
  (\<^verbatim>\<open>js/api.js\<close>, in its direct and its routed form) and the download orchestrator
  (\<^verbatim>\<open>js/download.js\<close>) are embedded here as HOL functions. Asynchronous results the
  code waits for (network replies, the outcome of an IndexedDB transaction, the user
  pressing "cancel") are inputs of the model.
\<close>

datatype jsval = JUndefined | JNull | JNum int | JStr string

datatype js_error = JsError (err_name: string) (err_message: string)

text \<open>
  A verse or commentary row. The two columns the merge reads as numbers, \<^verbatim>\<open>chapter_num\<close>
  and \<^verbatim>\<open>verse_num\<close>, are integers; every other own property of the object
  (\<^verbatim>\<open>verse_text\<close>, \<^verbatim>\<open>commentary_text\<close>, \<^verbatim>\<open>verse_display_num\<close>,
  \<^verbatim>\<open>book_id\<close>, ...) is kept in the map \<open>rest\<close>, a missing key being an absent property.
\<close>

record row =
  chapter_num :: int
  verse_num :: int
  rest :: "string \<rightharpoonup> jsval"

definition get_prop :: "row \<Rightarrow> string \<Rightarrow> jsval" where
  \<comment> \<open>reading a property: \<^verbatim>\<open>undefined\<close> when the object does not have it\<close>
  "get_prop r k = (case rest r k of None \<Rightarrow> JUndefined | Some x \<Rightarrow> x)"

definition digit_char :: "nat \<Rightarrow> char" where
  "digit_char d = ''0123456789'' ! d"

fun show_nat :: "nat \<Rightarrow> string" where
  "show_nat n = (if n < 10 then [digit_char n] else show_nat (n div 10) @ [digit_char (n mod 10)])"

declare show_nat.simps [simp del]

definition show_int :: "int \<Rightarrow> string" where
  \<comment> \<open>an integer inside a template literal\<close>
  "show_int i = (if i < 0 then CHR ''-'' # show_nat (nat (- i)) else show_nat (nat i))"

definition chapter_key :: "string \<Rightarrow> int \<Rightarrow> string \<Rightarrow> string" where
  \<comment> \<open>\<^verbatim>\<open>`${bookId}-${chapterNum}-${language}`\<close>\<close>
  "chapter_key bookId chapterNum language = bookId @ ''-'' @ show_int chapterNum @ ''-'' @ language"

section \<open>The content cache store\<close>

record crossref =
  doc_id :: string
  related_refs :: string

text \<open>
  What the single object store holds under a key: a chapter record
  \<^verbatim>\<open>{ data, isDownloaded }\<close>, a core dataset (an array) or an audio URL (a string).
\<close>

datatype stored =
  ChapterEntry (data: "row list") (isDownloaded: bool)
  | CoreData "crossref list"
  | AudioUrl string

type_synonym store = "(string \<times> stored) list"

record payload =
  verses :: "row list option"
  commentaries :: "row list option"

record save_result =
  savedCount :: nat
  error :: "js_error option"

text \<open>
  The ways the storage engine can fail a call. The database does not open. Or a request
  made through the transaction fails: its \<^verbatim>\<open>error\<close> event goes up to the transaction, and
  since no handler prevents the default, the engine aborts the transaction. Or every
  request succeeds and the engine aborts the transaction when it commits (the quota is
  exceeded, the disk fails): the transaction gets an \<^verbatim>\<open>abort\<close> event and no \<^verbatim>\<open>error\<close>
  event. An aborted transaction is rolled back: none of its writes is kept. In
  \<open>RequestFails k e\<close>, \<open>e\<close> is the error of the request and \<open>k\<close> says which request fails,
  as each function below reads it.
\<close>

datatype txn_failure =
  RequestFails nat js_error
  | CommitAborts js_error

record idb_env =
  open_error :: "js_error option"
  txn_error :: "txn_failure option"

definition nonempty :: "'a list option \<Rightarrow> bool" where
  \<comment> \<open>\<^verbatim>\<open>xs && xs.length > 0\<close>\<close>
  "nonempty xs = (case xs of None \<Rightarrow> False | Some l \<Rightarrow> l \<noteq> [])"

definition elems :: "'a list option \<Rightarrow> 'a list" where
  \<comment> \<open>the elements visited by \<^verbatim>\<open>if (xs) xs.forEach(...)\<close>\<close>
  "elems xs = (case xs of None \<Rightarrow> [] | Some l \<Rightarrow> l)"

definition set_add :: "'a \<Rightarrow> 'a list \<Rightarrow> 'a list" where
  \<comment> \<open>\<^verbatim>\<open>Set.prototype.add\<close>: a set keeps its elements in insertion order\<close>
  "set_add x s = (if x \<in> set s then s else s @ [x])"

definition touched_chapters :: "payload \<Rightarrow> int list" where
  "touched_chapters p =
     fold (\<lambda>c. set_add (chapter_num c)) (elems (commentaries p))
       (fold (\<lambda>v. set_add (chapter_num v)) (elems (verses p)) [])"

fun existing_rows :: "stored option \<Rightarrow> row list" where
  \<comment> \<open>\<^verbatim>\<open>e.target.result || { data: [], isDownloaded: true }\<close>, then the rows loaded
      when \<^verbatim>\<open>Array.isArray(existingEntry.data)\<close>\<close>
  "existing_rows (Some (ChapterEntry rows d)) = rows"
| "existing_rows other = []"

text \<open>\<^verbatim>\<open>chapterDataMap\<close>: a \<^verbatim>\<open>Map\<close> from verse number to row, in insertion order.\<close>

type_synonym verse_map = "(int \<times> row) list"

definition existing_props :: "verse_map \<Rightarrow> int \<Rightarrow> (string \<rightharpoonup> jsval)" where
  \<comment> \<open>the properties spread from \<^verbatim>\<open>chapterDataMap.get(n) || {}\<close>\<close>
  "existing_props m n = (case map_of m n of None \<Rightarrow> Map.empty | Some e \<Rightarrow> rest e)"

definition merge_verse :: "int \<Rightarrow> row \<Rightarrow> verse_map \<Rightarrow> verse_map" where
  \<comment> \<open>\<^verbatim>\<open>{ ...existing, ...v, chapter_num: chapterNum, verse_num: v.verse_num }\<close>\<close>
  "merge_verse chapterNum v m =
     AList.update (verse_num v)
       \<lparr>chapter_num = chapterNum, verse_num = verse_num v,
        rest = existing_props m (verse_num v) ++ rest v\<rparr> m"

definition merge_commentary :: "int \<Rightarrow> row \<Rightarrow> verse_map \<Rightarrow> verse_map" where
  \<comment> \<open>\<^verbatim>\<open>{ ...existing, commentary_text: c.commentary_text, chapter_num: chapterNum,
      verse_num: c.verse_num }\<close>\<close>
  "merge_commentary chapterNum c m =
     AList.update (verse_num c)
       \<lparr>chapter_num = chapterNum, verse_num = verse_num c,
        rest = (existing_props m (verse_num c))(''commentary_text'' \<mapsto> get_prop c ''commentary_text'')\<rparr> m"

definition load_existing :: "row list \<Rightarrow> verse_map" where
  "load_existing rows = fold (\<lambda>v. AList.update (verse_num v) v) rows []"

definition merge_chapter :: "payload \<Rightarrow> int \<Rightarrow> row list \<Rightarrow> row list" where
  "merge_chapter p chapterNum existingData =
     (let m0 = load_existing existingData;
          m1 = (if nonempty (verses p)
                then fold (merge_verse chapterNum)
                       (filter (\<lambda>v. chapter_num v = chapterNum) (elems (verses p))) m0
                else m0);
          m2 = (if nonempty (commentaries p)
                then fold (merge_commentary chapterNum)
                       (filter (\<lambda>c. chapter_num c = chapterNum) (elems (commentaries p))) m1
                else m1)
      in sort_key verse_num (map snd m2))"

text \<open>
  A read-write transaction on the object store. Requests made through the transaction
  read and write its own view (\<open>working\<close>); every other reader sees \<open>committed\<close>
  until the transaction completes, and keeps seeing it when the transaction fails.
\<close>

record txn =
  committed :: store
  working :: store

definition transaction :: "store \<Rightarrow> txn" where
  \<comment> \<open>\<^verbatim>\<open>db.transaction([CHAPTER_STORE_NAME], 'readwrite')\<close>\<close>
  "transaction st = \<lparr>committed = st, working = st\<rparr>"

definition put_chapter :: "string \<Rightarrow> string \<Rightarrow> payload \<Rightarrow> int \<Rightarrow> txn \<Rightarrow> txn" where
  \<comment> \<open>one turn of the loop over the touched chapters: \<^verbatim>\<open>store.get(key)\<close>, the merge,
      \<^verbatim>\<open>store.put({ data: mergedData, isDownloaded: true }, key)\<close>\<close>
  "put_chapter bookId language p chapterNum t =
     (let key = chapter_key bookId chapterNum language;
          existingData = existing_rows (map_of (working t) key);
          mergedData = merge_chapter p chapterNum existingData
      in t\<lparr>working := AList.update key (ChapterEntry mergedData True) (working t)\<rparr>)"

definition transaction_inactive :: js_error where
  \<comment> \<open>what \<^verbatim>\<open>store.put\<close> throws once the transaction is aborted\<close>
  "transaction_inactive =
     JsError ''TransactionInactiveError'' ''The transaction is not active.''"

text \<open>
  \<^verbatim>\<open>saveBookChaptersInBatch\<close> returns the store as it is once the transaction has ended,
  and what the promise settles with, \<open>None\<close> if it never settles. Here
  \<open>RequestFails k e\<close> is the failure of the \<^verbatim>\<open>put\<close> of touched chapter number \<open>k\<close> (from 0),
  or of the last \<^verbatim>\<open>put\<close> if there are fewer; a \<^verbatim>\<open>get\<close> that fails is not among the inputs
  of the model. The handlers \<^verbatim>\<open>oncomplete\<close> and \<^verbatim>\<open>onerror\<close> are set after the loop. When
  the last \<^verbatim>\<open>put\<close> fails, its error event reaches \<^verbatim>\<open>onerror\<close> and the promise is rejected
  with the error of the request. When an earlier \<^verbatim>\<open>put\<close> fails, the transaction is aborted
  while the loop is still running, and the next \<^verbatim>\<open>store.put\<close> throws. When the transaction
  is aborted at commit, neither handler is called: there is no \<^verbatim>\<open>onabort\<close>.
\<close>

definition saveBookChaptersInBatch ::
    "idb_env \<Rightarrow> string \<Rightarrow> string \<Rightarrow> payload \<Rightarrow> store \<Rightarrow> store \<times> save_result option" where
  "saveBookChaptersInBatch env bookId language p st =
     (if \<not> nonempty (verses p) \<and> \<not> nonempty (commentaries p)
      then (st, Some \<lparr>savedCount = 0, error = Some (JsError ''Error'' ''No data provided to save.'')\<rparr>)
      else case open_error env of
        Some e \<Rightarrow> (st, Some \<lparr>savedCount = 0, error = Some e\<rparr>)
      | None \<Rightarrow>
          (let chapters = touched_chapters p;
               t = fold (put_chapter bookId language p) chapters (transaction st);
               putsAttempted = length chapters
           in case txn_error env of
                None \<Rightarrow> (working t, Some \<lparr>savedCount = putsAttempted, error = None\<rparr>)
              | Some (RequestFails k e) \<Rightarrow>
                  (committed t,
                   Some \<lparr>savedCount = 0,
                         error = Some (if k + 1 < putsAttempted then transaction_inactive else e)\<rparr>)
              | Some (CommitAborts e) \<Rightarrow> (committed t, None)))"

definition idb_ok :: idb_env where
  "idb_ok = \<lparr>open_error = None, txn_error = None\<rparr>"

definition find_verse :: "int \<Rightarrow> row list \<Rightarrow> row option" where
  \<comment> \<open>reading a chapter record by verse number: the first row with that number\<close>
  "find_verse n rows = find (\<lambda>r. verse_num r = n) rows"

subsection \<open>The merge as a sequence of overlays\<close>

text \<open>
  Both merge steps write, under one verse number, the properties found there extended by
  some properties of the payload row. The definitions below name this common shape; the
  lemmas relate them to \<^const>\<open>merge_verse\<close> and \<^const>\<open>merge_commentary\<close>.
\<close>

definition overlay :: "int \<Rightarrow> int \<Rightarrow> (string \<rightharpoonup> jsval) \<Rightarrow> verse_map \<Rightarrow> verse_map" where
  "overlay chapterNum n u m =
     AList.update n \<lparr>chapter_num = chapterNum, verse_num = n, rest = existing_props m n ++ u\<rparr> m"

definition verse_op :: "row \<Rightarrow> int \<times> (string \<rightharpoonup> jsval)" where
  "verse_op v = (verse_num v, rest v)"

definition commentary_op :: "row \<Rightarrow> int \<times> (string \<rightharpoonup> jsval)" where
  "commentary_op c = (verse_num c, [''commentary_text'' \<mapsto> get_prop c ''commentary_text''])"

definition payload_ops :: "payload \<Rightarrow> int \<Rightarrow> (int \<times> (string \<rightharpoonup> jsval)) list" where
  "payload_ops p chapterNum =
     map verse_op (filter (\<lambda>v. chapter_num v = chapterNum) (elems (verses p)))
     @ map commentary_op (filter (\<lambda>c. chapter_num c = chapterNum) (elems (commentaries p)))"

definition combined :: "(string \<rightharpoonup> jsval) list \<Rightarrow> (string \<rightharpoonup> jsval)" where
  "combined us = foldr (++) us Map.empty"

definition ops_for :: "int \<Rightarrow> (int \<times> (string \<rightharpoonup> jsval)) list \<Rightarrow> (string \<rightharpoonup> jsval) list" where
  "ops_for n ops = map snd (filter (\<lambda>ku. fst ku = n) ops)"

definition vm_wf :: "verse_map \<Rightarrow> bool" where
  "vm_wf m \<longleftrightarrow> distinct (map fst m) \<and> (\<forall>kr \<in> set m. verse_num (snd kr) = fst kr)"

definition merged_map :: "payload \<Rightarrow> int \<Rightarrow> row list \<Rightarrow> verse_map" where
  "merged_map p c rows = fold (\<lambda>ku. overlay c (fst ku) (snd ku)) (payload_ops p c) (load_existing rows)"

subsection \<open>Example stores and payloads\<close>

definition text_only_store :: store where
  "text_only_store =
     [(''genesis-1-am'',
       ChapterEntry [\<lparr>chapter_num = 1, verse_num = 1, rest = [''verse_text'' \<mapsto> JStr ''A'']\<rparr>] False)]"

definition commentary_only_payload :: payload where
  "commentary_only_payload =
     \<lparr>verses = Some [],
      commentaries = Some [\<lparr>chapter_num = 1, verse_num = 1, rest = [''commentary_text'' \<mapsto> JStr ''C'']\<rparr>]\<rparr>"

definition commentary_only_store :: store where
  "commentary_only_store =
     [(''genesis-1-am'',
       ChapterEntry [\<lparr>chapter_num = 1, verse_num = 1, rest = [''commentary_text'' \<mapsto> JStr ''C'']\<rparr>] True)]"

definition text_only_payload :: payload where
  "text_only_payload =
     \<lparr>verses = Some [\<lparr>chapter_num = 1, verse_num = 1, rest = [''verse_text'' \<mapsto> JStr ''A'']\<rparr>],
      commentaries = Some []\<rparr>"

definition quota_exceeded :: js_error where
  "quota_exceeded = JsError ''QuotaExceededError'' ''The quota has been exceeded.''"

definition quota_full :: idb_env where
  \<comment> \<open>the first \<^verbatim>\<open>put\<close> of the transaction fails: the quota is exceeded\<close>
  "quota_full = \<lparr>open_error = None, txn_error = Some (RequestFails 0 quota_exceeded)\<rparr>"

definition commit_aborted :: idb_env where
  \<comment> \<open>every request succeeds and the engine aborts the transaction when it commits\<close>
  "commit_aborted = \<lparr>open_error = None, txn_error = Some (CommitAborts quota_exceeded)\<rparr>"

definition two_chapter_payload :: payload where
  \<comment> \<open>a verse of chapter 2 and a commentary of chapter 1\<close>
  "two_chapter_payload =
     \<lparr>verses = Some [\<lparr>chapter_num = 2, verse_num = 1, rest = [''verse_text'' \<mapsto> JStr ''B'']\<rparr>],
      commentaries = Some [\<lparr>chapter_num = 1, verse_num = 1, rest = [''commentary_text'' \<mapsto> JStr ''C'']\<rparr>]\<rparr>"

section \<open>Clearing the downloaded data of a language\<close>

definition ends_with :: "string \<Rightarrow> string \<Rightarrow> bool" where
  \<comment> \<open>\<^verbatim>\<open>key.endsWith(s)\<close>\<close>
  "ends_with key s \<longleftrightarrow> length s \<le> length key \<and> drop (length key - length s) key = s"

fun is_downloaded :: "stored \<Rightarrow> bool" where
  \<comment> \<open>\<^verbatim>\<open>storedObject?.isDownloaded === true\<close>\<close>
  "is_downloaded (ChapterEntry rows d) = d"
| "is_downloaded other = False"

record clear_result =
  success :: bool
  clearedCount :: nat

definition to_clear :: "string \<Rightarrow> string \<times> stored \<Rightarrow> bool" where
  \<comment> \<open>the test made on every record the cursor visits\<close>
  "to_clear languageToClear kv \<longleftrightarrow>
     ends_with (fst kv) (''-'' @ languageToClear) \<and> is_downloaded (snd kv)"

text \<open>
  \<^verbatim>\<open>clearDownloadedDataForLanguage\<close> waits for a promise that is resolved when the cursor
  has visited every record, and rejected by the error event of a request. Here
  \<open>RequestFails k e\<close> is a request that fails once the cursor has visited \<open>k\<close> records. When
  the engine aborts the transaction at commit, the cursor has ended and the function has
  already answered \<^verbatim>\<open>success: true\<close> with its count, and nothing is deleted.
\<close>

definition clearDownloadedDataForLanguage ::
    "idb_env \<Rightarrow> string \<Rightarrow> store \<Rightarrow> store \<times> clear_result" where
  "clearDownloadedDataForLanguage env languageToClear st =
     (case open_error env of
        Some e \<Rightarrow> (st, \<lparr>success = False, clearedCount = 0\<rparr>)
      | None \<Rightarrow>
          (let t = transaction st;
               crossrefsKey = ''core-crossrefs_'' @ languageToClear;
               t1 = t\<lparr>working := AList.delete crossrefsKey (working t)\<rparr>
           in case txn_error env of
                Some (RequestFails k e) \<Rightarrow>
                  (committed t1,
                   \<lparr>success = False,
                    clearedCount = length (filter (to_clear languageToClear)
                                     (take k (working t1)))\<rparr>)
              | Some (CommitAborts e) \<Rightarrow>
                  (committed t1,
                   \<lparr>success = True,
                    clearedCount = length (filter (to_clear languageToClear) (working t1))\<rparr>)
              | None \<Rightarrow>
                  (let t2 = t1\<lparr>working := filter (\<lambda>kv. \<not> to_clear languageToClear kv) (working t1)\<rparr>
                   in (working t2,
                       \<lparr>success = True,
                        clearedCount = length (filter (to_clear languageToClear) (working t1))\<rparr>))))"

definition audio_key :: "string \<Rightarrow> int \<Rightarrow> string \<Rightarrow> string" where
  \<comment> \<open>\<^verbatim>\<open>`audio-${bookId}-${chapterNum}-${language}`\<close>\<close>
  "audio_key bookId chapterNum language = ''audio-'' @ bookId @ ''-'' @ show_int chapterNum @ ''-'' @ language"

definition cursor_ok :: idb_env where
  "cursor_ok = \<lparr>open_error = None, txn_error = None\<rparr>"

definition two_language_store :: store where
  "two_language_store =
     [(''audio-genesis-1-am'', AudioUrl ''https://example.org/genesis-1-am.mp3''),
      (''core-crossrefs_am'', CoreData [\<lparr>doc_id = ''genesis-1-1'', related_refs = ''john-1-1''\<rparr>]),
      (''core-crossrefs_en'', CoreData [\<lparr>doc_id = ''genesis-1-1'', related_refs = ''john-1-1''\<rparr>]),
      (''genesis-1-am'', ChapterEntry [\<lparr>chapter_num = 1, verse_num = 1, rest = [''verse_text'' \<mapsto> JStr ''A'']\<rparr>] True),
      (''genesis-1-en'', ChapterEntry [\<lparr>chapter_num = 1, verse_num = 1, rest = [''verse_text'' \<mapsto> JStr ''E'']\<rparr>] True),
      (''genesis-2-am'', ChapterEntry [\<lparr>chapter_num = 2, verse_num = 1, rest = [''verse_text'' \<mapsto> JStr ''B'']\<rparr>] False)]"

section \<open>The remote content gateway\<close>

definition pageSize :: nat where
  "pageSize = 1000"

datatype api_error =
  PostgrestError (code: string) (message: string)
  | JsException js_error

fun error_code :: "api_error \<Rightarrow> string option" where
  \<comment> \<open>\<^verbatim>\<open>error.code\<close>\<close>
  "error_code (PostgrestError c m) = Some c"
| "error_code (JsException e) = None"

record 'a fetch_result =
  result_data :: "'a option"
  result_error :: "api_error option"

text \<open>What an asynchronous function does when it settles: it returns a value or it throws.\<close>

datatype 'a completion = Returns 'a | Throws js_error

text \<open>
  The callback \<^verbatim>\<open>onCancel\<close> is optional and reads a flag that changes while the fetch
  runs. It is modelled by the answers it gives, in the order of the calls:
  \<open>poll onCancel\<close> is the answer of the next call, \<open>later onCancel\<close> the callback after it.
\<close>

type_synonym on_cancel = "(nat \<Rightarrow> bool) option"

definition poll :: "on_cancel \<Rightarrow> bool" where
  \<comment> \<open>\<^verbatim>\<open>onCancel && onCancel()\<close>\<close>
  "poll onCancel = (case onCancel of None \<Rightarrow> False | Some f \<Rightarrow> f 0)"

definition later :: "on_cancel \<Rightarrow> on_cancel" where
  "later onCancel = map_option (\<lambda>f k. f (Suc k)) onCancel"

definition answer :: "on_cancel \<Rightarrow> nat \<Rightarrow> bool" where
  \<comment> \<open>the answer of the call number \<open>k\<close>, counted from 0\<close>
  "answer onCancel k = (case onCancel of None \<Rightarrow> False | Some f \<Rightarrow> f k)"

text \<open>What the fetch does on the network and on its progress callback, in order.\<close>

datatype fetch_event =
  Request nat
  | OnProgress nat nat

subsection \<open>Direct queries (\<^verbatim>\<open>js/api.js\<close>, first form)\<close>

text \<open>
  The reply of a query \<^verbatim>\<open>...range(offset, offset + pageSize - 1)\<close>: the pair
  \<^verbatim>\<open>{ data, error }\<close>, or an exception. The database is a function from the offset asked
  for to the reply.
\<close>

datatype 'r query_reply =
  QueryReply "'r list option" "api_error option"
  | QueryThrows js_error

definition cancelled_book :: api_error where
  "cancelled_book = JsException (JsError ''Error'' ''Cancelled during book fetch pagination'')"

definition cancelled_crossrefs :: api_error where
  "cancelled_crossrefs = JsException (JsError ''Error'' ''Cancelled during cross-reference fetch'')"

definition not_initialized :: api_error where
  "not_initialized = JsException (JsError ''Error'' ''Supabase client not initialized.'')"

definition rejects :: "api_error option \<Rightarrow> bool" where
  \<comment> \<open>\<^verbatim>\<open>error && error.code !== 'PGRST116'\<close>\<close>
  "rejects query_error =
     (case query_error of None \<Rightarrow> False | Some err \<Rightarrow> error_code err \<noteq> Some ''PGRST116'')"

partial_function (option) fetch_verses_from ::
    "(nat \<Rightarrow> row query_reply) \<Rightarrow> on_cancel \<Rightarrow> nat \<Rightarrow> row list \<Rightarrow> fetch_event list
       \<Rightarrow> (fetch_event list \<times> row list fetch_result) option" where
  "fetch_verses_from db onCancel offset allVersesForBook trace =
     (if poll onCancel
      then Some (trace, \<lparr>result_data = None, result_error = Some cancelled_book\<rparr>)
      else case db offset of
        QueryThrows e \<Rightarrow>
          Some (trace @ [Request offset], \<lparr>result_data = None, result_error = Some (JsException e)\<rparr>)
      | QueryReply page_rows query_error \<Rightarrow>
          if rejects query_error
          then Some (trace @ [Request offset], \<lparr>result_data = None, result_error = query_error\<rparr>)
          else if \<not> nonempty page_rows
          then Some (trace @ [Request offset],
                 \<lparr>result_data = Some allVersesForBook, result_error = None\<rparr>)
          else if length (elems page_rows) < pageSize
          then Some (trace @ [Request offset],
                 \<lparr>result_data = Some (allVersesForBook @ elems page_rows), result_error = None\<rparr>)
          else fetch_verses_from db (later onCancel) (offset + pageSize)
                 (allVersesForBook @ elems page_rows) (trace @ [Request offset]))"

definition fetchAllVersesForBook_direct ::
    "bool \<Rightarrow> (nat \<Rightarrow> row query_reply) \<Rightarrow> on_cancel
       \<Rightarrow> (fetch_event list \<times> row list fetch_result) option" where
  \<comment> \<open>\<open>supabaseClient\<close>: whether the client was initialised\<close>
  "fetchAllVersesForBook_direct supabaseClient db onCancel =
     (if \<not> supabaseClient
      then Some ([], \<lparr>result_data = None, result_error = Some not_initialized\<rparr>)
      else fetch_verses_from db onCancel 0 [] [])"

partial_function (option) fetch_crossrefs_from ::
    "(nat \<Rightarrow> crossref query_reply) \<Rightarrow> on_cancel \<Rightarrow> bool \<Rightarrow> nat \<Rightarrow> nat \<Rightarrow> crossref list
       \<Rightarrow> fetch_event list \<Rightarrow> (fetch_event list \<times> crossref list fetch_result) option" where
  "fetch_crossrefs_from db onCancel onProgress offset page allCrossrefs trace =
     (if poll onCancel
      then Some (trace, \<lparr>result_data = None, result_error = Some cancelled_crossrefs\<rparr>)
      else
        (let trace' = (if onProgress then trace @ [OnProgress page (length allCrossrefs)] else trace)
         in case db offset of
           QueryThrows e \<Rightarrow>
             Some (trace' @ [Request offset], \<lparr>result_data = None, result_error = Some (JsException e)\<rparr>)
         | QueryReply page_rows query_error \<Rightarrow>
             if rejects query_error
             then Some (trace' @ [Request offset], \<lparr>result_data = None, result_error = query_error\<rparr>)
             else if \<not> nonempty page_rows
             then Some (trace' @ [Request offset],
                    \<lparr>result_data = Some allCrossrefs, result_error = None\<rparr>)
             else if length (elems page_rows) < pageSize
             then Some (trace' @ [Request offset],
                    \<lparr>result_data = Some (allCrossrefs @ elems page_rows), result_error = None\<rparr>)
             else fetch_crossrefs_from db (later onCancel) onProgress (offset + pageSize) (page + 1)
                    (allCrossrefs @ elems page_rows) (trace' @ [Request offset])))"

definition fetchAllCrossRefs_direct ::
    "bool \<Rightarrow> (nat \<Rightarrow> crossref query_reply) \<Rightarrow> on_cancel \<Rightarrow> bool
       \<Rightarrow> (fetch_event list \<times> crossref list fetch_result) option" where
  "fetchAllCrossRefs_direct supabaseClient db onCancel onProgress =
     (if \<not> supabaseClient
      then Some ([], \<lparr>result_data = None, result_error = Some not_initialized\<rparr>)
      else fetch_crossrefs_from db onCancel onProgress 0 1 [] [])"

subsection \<open>Queries routed through the serverless function (\<^verbatim>\<open>js/api.js\<close>, second form)\<close>

text \<open>
  \<^verbatim>\<open>_invokeBrain\<close> resolves to the pair \<^verbatim>\<open>{ data, error }\<close> the function answered, or to
  \<^verbatim>\<open>{ data: null, error }\<close> when the call failed; it never throws. The gateway is a function
  from the page asked for to that pair.
\<close>

record 'a brain_reply =
  reply_data :: "'a option"
  reply_error :: "api_error option"

record book_page = payload +
  hasMore :: bool

record crossrefs_page =
  crossrefs :: "crossref list option"
  refsHasMore :: bool

definition cancelled :: api_error where
  "cancelled = JsException (JsError ''Error'' ''Cancelled'')"

definition null_data :: js_error where
  \<comment> \<open>reading a property of \<^verbatim>\<open>data\<close> when the reply has neither data nor error\<close>
  "null_data = JsError ''TypeError'' ''Cannot read properties of null''"

partial_function (option) fetch_book_from ::
    "(nat \<Rightarrow> book_page brain_reply) \<Rightarrow> on_cancel \<Rightarrow> nat \<Rightarrow> row list \<Rightarrow> row list
       \<Rightarrow> fetch_event list \<Rightarrow> (fetch_event list \<times> payload fetch_result completion) option" where
  "fetch_book_from invokeBrain onCancel page allVerses allComm trace =
     (if poll onCancel
      then Some (trace, Returns \<lparr>result_data = None, result_error = Some cancelled\<rparr>)
      else case reply_error (invokeBrain page) of
        Some err \<Rightarrow>
          Some (trace @ [Request page], Returns \<lparr>result_data = None, result_error = Some err\<rparr>)
      | None \<Rightarrow>
          (case reply_data (invokeBrain page) of
             None \<Rightarrow> Some (trace @ [Request page], Throws null_data)
           | Some d \<Rightarrow>
               if hasMore d
               then fetch_book_from invokeBrain (later onCancel) (page + 1)
                      (allVerses @ elems (verses d)) (allComm @ elems (commentaries d))
                      (trace @ [Request page])
               else Some (trace @ [Request page],
                      Returns \<lparr>result_data = Some \<lparr>verses = Some (allVerses @ elems (verses d)),
                                                  commentaries = Some (allComm @ elems (commentaries d))\<rparr>,
                               result_error = None\<rparr>)))"

definition fetchAllVersesForBook ::
    "(nat \<Rightarrow> book_page brain_reply) \<Rightarrow> on_cancel
       \<Rightarrow> (fetch_event list \<times> payload fetch_result completion) option" where
  "fetchAllVersesForBook invokeBrain onCancel = fetch_book_from invokeBrain onCancel 0 [] [] []"

partial_function (option) fetch_refs_from ::
    "(nat \<Rightarrow> crossrefs_page brain_reply) \<Rightarrow> on_cancel \<Rightarrow> bool \<Rightarrow> nat \<Rightarrow> crossref list
       \<Rightarrow> fetch_event list \<Rightarrow> (fetch_event list \<times> crossref list fetch_result completion) option" where
  "fetch_refs_from invokeBrain onCancel onProgress page allCrossrefs trace =
     (if poll onCancel
      then Some (trace, Returns \<lparr>result_data = None, result_error = Some cancelled\<rparr>)
      else
        (let trace' = (if onProgress then trace @ [OnProgress (page + 1) (length allCrossrefs)] else trace)
         in case reply_error (invokeBrain page) of
           Some err \<Rightarrow>
             Some (trace' @ [Request page], Returns \<lparr>result_data = None, result_error = Some err\<rparr>)
         | None \<Rightarrow>
             (case reply_data (invokeBrain page) of
                None \<Rightarrow> Some (trace' @ [Request page], Throws null_data)
              | Some d \<Rightarrow>
                  if refsHasMore d
                  then fetch_refs_from invokeBrain (later onCancel) onProgress (page + 1)
                         (allCrossrefs @ elems (crossrefs d)) (trace' @ [Request page])
                  else Some (trace' @ [Request page],
                         Returns \<lparr>result_data = Some (allCrossrefs @ elems (crossrefs d)),
                                  result_error = None\<rparr>))))"

definition fetchAllCrossRefs ::
    "(nat \<Rightarrow> crossrefs_page brain_reply) \<Rightarrow> on_cancel \<Rightarrow> bool
       \<Rightarrow> (fetch_event list \<times> crossref list fetch_result completion) option" where
  "fetchAllCrossRefs invokeBrain onCancel onProgress = fetch_refs_from invokeBrain onCancel onProgress 0 [] []"

text \<open>
  The pages the serverless function answers (\<^verbatim>\<open>fetch_book_full\<close> and
  \<^verbatim>\<open>fetch_cross_refs\<close> in \<^verbatim>\<open>orchestrator/index.ts\<close>), from the rows its two range
  queries returned: \<^verbatim>\<open>hasMore\<close> says that a query filled its page.
\<close>

definition book_page_reply :: "row list \<Rightarrow> row list \<Rightarrow> book_page brain_reply" where
  "book_page_reply dlVerses dlComm =
     \<lparr>reply_data = Some \<lparr>verses = Some dlVerses, commentaries = Some dlComm,
                           hasMore = (length dlVerses = pageSize \<or> length dlComm = pageSize)\<rparr>,
      reply_error = None\<rparr>"

text \<open>
  The handler of \<^verbatim>\<open>fetch_book_full\<close> itself, from what its two queries answered, each a
  \<^verbatim>\<open>{ data, error }\<close>. The error of a query is read nowhere: a query that failed counts
  as a page of no row, and the reply carries no error.
\<close>

definition fetch_book_full :: "row list fetch_result \<Rightarrow> row list fetch_result \<Rightarrow> book_page brain_reply" where
  "fetch_book_full dlVerses dlComm =
     (let versesFull = (case result_data dlVerses of None \<Rightarrow> False | Some rows \<Rightarrow> length rows = pageSize);
          commFull = (case result_data dlComm of None \<Rightarrow> False | Some rows \<Rightarrow> length rows = pageSize)
      in \<lparr>reply_data = Some \<lparr>verses = Some (elems (result_data dlVerses)),
                               commentaries = Some (elems (result_data dlComm)),
                               hasMore = (versesFull \<or> commFull)\<rparr>,
          reply_error = None\<rparr>)"

definition crossrefs_page_reply :: "crossref list \<Rightarrow> crossrefs_page brain_reply" where
  "crossrefs_page_reply refs =
     \<lparr>reply_data = Some \<lparr>crossrefs = Some refs, refsHasMore = (length refs = pageSize)\<rparr>,
      reply_error = None\<rparr>"

definition requests :: "fetch_event list \<Rightarrow> nat list" where
  \<comment> \<open>the offsets or pages asked for, in order\<close>
  "requests trace = concat (map (\<lambda>ev. case ev of Request n \<Rightarrow> [n] | OnProgress p t \<Rightarrow> []) trace)"

definition continues_direct :: "'r query_reply \<Rightarrow> bool" where
  \<comment> \<open>a reply after which the direct pagination goes on: no error, a full page\<close>
  "continues_direct r =
     (case r of
        QueryThrows e \<Rightarrow> False
      | QueryReply page_rows query_error \<Rightarrow>
          \<not> rejects query_error \<and> nonempty page_rows \<and> \<not> length (elems page_rows) < pageSize)"

definition continues_book :: "book_page brain_reply \<Rightarrow> bool" where
  \<comment> \<open>a reply after which the routed pagination of a book goes on\<close>
  "continues_book r =
     (reply_error r = None \<and> (case reply_data r of None \<Rightarrow> False | Some d \<Rightarrow> hasMore d))"

definition continues_refs :: "crossrefs_page brain_reply \<Rightarrow> bool" where
  "continues_refs r =
     (reply_error r = None \<and> (case reply_data r of None \<Rightarrow> False | Some d \<Rightarrow> refsHasMore d))"

definition sample_row :: row where
  "sample_row = \<lparr>chapter_num = 1, verse_num = 1, rest = [''verse_text'' \<mapsto> JStr ''A'']\<rparr>"

definition two_pages :: "nat \<Rightarrow> row list" where
  \<comment> \<open>a book of 1001 rows: one full page, then a page of one row\<close>
  "two_pages i = (if i = 0 then replicate 1000 sample_row else [sample_row])"

definition no_commentary :: "nat \<Rightarrow> row list" where
  "no_commentary i = []"

definition cancel_after :: "nat \<Rightarrow> on_cancel" where
  \<comment> \<open>a flag that is set once \<open>k\<close> pages have been asked for\<close>
  "cancel_after k = Some (\<lambda>j. k \<le> j)"

definition five_pages :: "nat \<Rightarrow> row list" where
  \<comment> \<open>a book of five pages: four full ones, then one row\<close>
  "five_pages i = (if i < 4 then replicate 1000 sample_row else [sample_row])"

definition sample_crossref :: crossref where
  "sample_crossref = \<lparr>doc_id = ''genesis-1-1'', related_refs = ''john-1-1''\<rparr>"

definition five_ref_pages :: "nat \<Rightarrow> crossref list" where
  "five_ref_pages i = (if i < 4 then replicate 1000 sample_crossref else [sample_crossref])"

section \<open>The download run\<close>

definition saveCoreData ::
    "idb_env \<Rightarrow> string \<Rightarrow> crossref list \<Rightarrow> store \<Rightarrow> store \<times> bool option" where
  \<comment> \<open>\<^verbatim>\<open>saveCoreData(dataType, data)\<close> with an array: one put in its own transaction. The
      promise is resolved by \<^verbatim>\<open>oncomplete\<close> and by \<^verbatim>\<open>onerror\<close>; \<open>None\<close>: it never settles.\<close>
  "saveCoreData env dataType dat st =
     (case open_error env of
        Some e \<Rightarrow> (st, Some False)
      | None \<Rightarrow>
          (let t = transaction st;
               t1 = t\<lparr>working := AList.update (''core-'' @ dataType) (CoreData dat) (working t)\<rparr>
           in case txn_error env of
                None \<Rightarrow> (working t1, Some True)
              | Some (RequestFails k e) \<Rightarrow> (committed t1, Some False)
              | Some (CommitAborts e) \<Rightarrow> (committed t1, None)))"

record book_info =
  book_id :: string
  chapters :: nat
  book_order :: int
  englishName :: "string option"
  amharicName :: "string option"

record download_progress =
  progress_language :: "string option"
  currentBookId :: "string option"
  currentBookName :: string
  currentChapter :: nat
  totalChaptersInBook :: nat
  totalChaptersOverall :: nat
  downloadedChaptersOverall :: nat

datatype status = Cancelled | FetchError | SaveError | Success

text \<open>
  What a run did, in order. This log is not part of the program's state; it is kept to
  state which requests a run issued and how each book ended.
\<close>

datatype log_entry =
  Requested string string nat
  | RefsRequested string nat
  | Finished string string status
  | RefsFinished string bool

text \<open>
  The part of \<^verbatim>\<open>currentState\<close> the download workflow reads and writes, with the offline
  cache, the ledger as last written to \<^verbatim>\<open>localStorage\<close>, the messages shown to the user
  and \<^verbatim>\<open>overallSuccessTracker.isSuccess\<close> of the run in progress.
\<close>

record state =
  isDownloading :: bool
  cancelDownloadFlag :: bool
  downloadedResources :: "string \<Rightarrow> bool"
  downloadProgress :: download_progress
  booksInfo :: "book_info list"
  cache :: store
  stored_downloadedResources :: "string \<Rightarrow> bool"
  isSuccess :: bool
  messages :: "(string \<times> string) list"
  run_log :: "log_entry list"

text \<open>
  What the run waits for, in the order in which it happens: the user pressing "cancel",
  the reply to the page request of a book of the current batch, the end of the
  transaction that saves a book of the current batch, the reply to a cross-reference
  page request, the end of the transaction that saves the cross-references. Books of a
  batch are numbered by their position in the batch.
\<close>

datatype event =
  UserCancel
  | BookReply nat "book_page brain_reply"
  | BookSaved nat idb_env
  | RefsReply "crossrefs_page brain_reply"
  | RefsSaved idb_env

text \<open>An asynchronous step ends normally or with an exception, in some state.\<close>

datatype 'a outcome = Normal 'a | Exception js_error state

fun then_do :: "'a outcome option \<Rightarrow> ('a \<Rightarrow> 'b outcome option) \<Rightarrow> 'b outcome option" where
  "then_do None f = None"
| "then_do (Some (Exception e s)) f = Some (Exception e s)"
| "then_do (Some (Normal x)) f = f x"

definition cancel :: "state \<Rightarrow> state" where
  "cancel s = (if isDownloading s then s\<lparr>cancelDownloadFlag := True\<rparr> else s)"

definition showTempMessage :: "string \<Rightarrow> string \<Rightarrow> state \<Rightarrow> state" where
  "showTempMessage msg kind s = s\<lparr>messages := messages s @ [(msg, kind)]\<rparr>"

definition record_entry :: "log_entry \<Rightarrow> state \<Rightarrow> state" where
  "record_entry e s = s\<lparr>run_log := run_log s @ [e]\<rparr>"

definition or_else :: "string option \<Rightarrow> string \<Rightarrow> string" where
  \<comment> \<open>\<^verbatim>\<open>name || bookId\<close>\<close>
  "or_else name d = (case name of None \<Rightarrow> d | Some n \<Rightarrow> if n = [] then d else n)"

subsection \<open>One book\<close>

text \<open>
  \<^verbatim>\<open>_downloadAndProcessBook\<close> is an asynchronous function: it runs until it has to wait,
  and goes on when what it waits for has happened. A book being processed is waiting for
  the reply to a page request (with the rows collected so far), or for the end of its
  save, or for a save whose promise never settles, or has returned its status.
\<close>

datatype task =
  Fetching book_info nat "row list" "row list"
  | Saving book_info payload
  | Pending book_info
  | Done book_info status

definition finish :: "string \<Rightarrow> book_info \<Rightarrow> status \<Rightarrow> state \<Rightarrow> task \<times> state" where
  "finish language bookInfo st s =
     (Done bookInfo st, record_entry (Finished language (book_id bookInfo) st) s)"

definition begin_book :: "string \<Rightarrow> book_info \<Rightarrow> state \<Rightarrow> task \<times> state" where
  \<comment> \<open>from the call to the first page request\<close>
  "begin_book language bookInfo s =
     (let bookDisplayName =
            (if language = ''en'' then or_else (englishName bookInfo) (book_id bookInfo)
             else or_else (amharicName bookInfo) (book_id bookInfo));
          s1 = s\<lparr>downloadProgress := (downloadProgress s)
                  \<lparr>currentBookId := Some (book_id bookInfo), currentBookName := bookDisplayName,
                   totalChaptersInBook := chapters bookInfo, currentChapter := 0\<rparr>\<rparr>
      in if cancelDownloadFlag s1 then finish language bookInfo Cancelled s1
         else (Fetching bookInfo 0 [] [], record_entry (Requested language (book_id bookInfo) 0) s1))"

definition on_book_reply ::
    "string \<Rightarrow> book_info \<Rightarrow> nat \<Rightarrow> row list \<Rightarrow> row list \<Rightarrow> book_page brain_reply \<Rightarrow> state
       \<Rightarrow> (task \<times> state) outcome" where
  \<comment> \<open>the reply to the request of \<open>page\<close> arrives: the rest of that turn of the loop of
      \<^verbatim>\<open>fetchAllVersesForBook\<close>, then either the next request or what follows the fetch\<close>
  "on_book_reply language bookInfo page allVerses allComm r s =
     (case reply_error r of
        Some err \<Rightarrow>
          if cancelDownloadFlag s then Normal (finish language bookInfo Cancelled s)
          else Normal (finish language bookInfo FetchError (s\<lparr>isSuccess := False\<rparr>))
      | None \<Rightarrow>
          (case reply_data r of
             None \<Rightarrow> Exception null_data s
           | Some d \<Rightarrow>
               (let allVerses' = allVerses @ elems (verses d);
                    allComm' = allComm @ elems (commentaries d)
                in if hasMore d
                   then (if cancelDownloadFlag s then Normal (finish language bookInfo Cancelled s)
                         else Normal (Fetching bookInfo (page + 1) allVerses' allComm',
                                record_entry (Requested language (book_id bookInfo) (page + 1)) s))
                   else (if cancelDownloadFlag s then Normal (finish language bookInfo Cancelled s)
                         else Normal (Saving bookInfo \<lparr>verses = Some allVerses', commentaries = Some allComm'\<rparr>,
                                s)))))"

definition on_book_saved :: "string \<Rightarrow> book_info \<Rightarrow> payload \<Rightarrow> idb_env \<Rightarrow> state \<Rightarrow> task \<times> state" where
  \<comment> \<open>the transaction of \<^verbatim>\<open>saveBookChaptersInBatch\<close> ends: what follows the save, if its
      promise settles\<close>
  "on_book_saved language bookInfo fetchedData env s =
     (let saved = saveBookChaptersInBatch env (book_id bookInfo) language fetchedData (cache s);
          s1 = s\<lparr>cache := fst saved\<rparr>
      in case snd saved of
           None \<Rightarrow> (Pending bookInfo, s1)
         | Some saveResult \<Rightarrow>
             if cancelDownloadFlag s1 then finish language bookInfo Cancelled s1
             else if error saveResult \<noteq> None
             then finish language bookInfo SaveError (s1\<lparr>isSuccess := False\<rparr>)
             else finish language bookInfo Success
                    (s1\<lparr>downloadProgress := (downloadProgress s1)
                          \<lparr>downloadedChaptersOverall :=
                             downloadedChaptersOverall (downloadProgress s1) + savedCount saveResult,
                           currentChapter := chapters bookInfo\<rparr>\<rparr>))"

subsection \<open>One batch of books\<close>

fun is_done :: "task \<Rightarrow> bool" where
  "is_done (Done b st) = True"
| "is_done t = False"

fun settle :: "nat \<Rightarrow> task list \<Rightarrow> (task \<times> state) outcome \<Rightarrow> (task list \<times> state) outcome" where
  "settle i tasks (Normal (t, s)) = Normal (tasks[i := t], s)"
| "settle i tasks (Exception e s) = Exception e s"

fun batch_step :: "string \<Rightarrow> event \<Rightarrow> task list \<Rightarrow> state \<Rightarrow> (task list \<times> state) outcome option" where
  "batch_step language UserCancel tasks s = Some (Normal (tasks, cancel s))"
| "batch_step language (BookReply i r) tasks s =
     (if i < length tasks
      then (case tasks ! i of
              Fetching bookInfo page allVerses allComm \<Rightarrow>
                Some (settle i tasks (on_book_reply language bookInfo page allVerses allComm r s))
            | other \<Rightarrow> None)
      else None)"
| "batch_step language (BookSaved i env) tasks s =
     (if i < length tasks
      then (case tasks ! i of
              Saving bookInfo fetchedData \<Rightarrow>
                Some (Normal (tasks[i := fst (on_book_saved language bookInfo fetchedData env s)],
                              snd (on_book_saved language bookInfo fetchedData env s)))
            | other \<Rightarrow> None)
      else None)"
| "batch_step language other tasks s = None"

text \<open>
  \<^verbatim>\<open>await Promise.all(batch.map(...))\<close>, once the books of the batch have been started:
  the events are taken one by one until every book of the batch has returned; an
  exception in one book ends the wait at once. \<open>None\<close>: the events run out (a save
  whose promise never settles is never done), or name a book that is not waiting for them,
  so that the wait never ends.
\<close>

fun await_all :: "string \<Rightarrow> task list \<Rightarrow> event list \<Rightarrow> state \<Rightarrow> (event list \<times> state) outcome option" where
  "await_all language tasks [] s = (if list_all is_done tasks then Some (Normal ([], s)) else None)"
| "await_all language tasks (ev # evs) s =
     (if list_all is_done tasks then Some (Normal (ev # evs, s))
      else case batch_step language ev tasks s of
             None \<Rightarrow> None
           | Some (Exception e s') \<Rightarrow> Some (Exception e s')
           | Some (Normal (tasks', s')) \<Rightarrow> await_all language tasks' evs s')"

fun begin_books :: "string \<Rightarrow> book_info list \<Rightarrow> state \<Rightarrow> task list \<times> state" where
  \<comment> \<open>\<^verbatim>\<open>batch.map(book => _downloadAndProcessBook(...))\<close>: every book runs to its first wait\<close>
  "begin_books language [] s = ([], s)"
| "begin_books language (book # batch) s =
     (let ts = begin_book language book s;
          rest_ts = begin_books language batch (snd ts)
      in (fst ts # fst rest_ts, snd rest_ts))"

fun batches :: "'a list \<Rightarrow> 'a list list" where
  \<comment> \<open>\<^verbatim>\<open>booksToDownload.slice(i, i + CONCURRENCY_LIMIT)\<close> for \<open>i = 0, 3, 6, \<dots>\<close>\<close>
  "batches (a # b # c # xs) = [a, b, c] # batches xs"
| "batches [] = []"
| "batches xs = [xs]"

fun run_batches :: "string \<Rightarrow> book_info list list \<Rightarrow> event list \<Rightarrow> state \<Rightarrow> (event list \<times> state) outcome option" where
  "run_batches language [] evs s = Some (Normal (evs, s))"
| "run_batches language (batch # others) evs s =
     (if cancelDownloadFlag s then Some (Normal (evs, s))
      else then_do (await_all language (fst (begin_books language batch s)) evs
                      (snd (begin_books language batch s)))
             (\<lambda>es. run_batches language others (fst es) (snd es)))"

subsection \<open>Cross-references\<close>

definition request_refs :: "string \<Rightarrow> nat \<Rightarrow> state \<Rightarrow> state" where
  \<comment> \<open>\<^verbatim>\<open>onProgress({ page: page + 1, ... })\<close>, then the request of \<open>page\<close>\<close>
  "request_refs language page s =
     record_entry (RefsRequested language page)
       (s\<lparr>downloadProgress := (downloadProgress s)
            \<lparr>currentBookName := ''Downloading Cross-Refs (Page '' @ show_nat (page + 1) @ '')...''\<rparr>\<rparr>)"

text \<open>
  \<^verbatim>\<open>fetchAllCrossRefs\<close> with \<^verbatim>\<open>onCancel: () => currentState.cancelDownloadFlag\<close>, waiting
  for the reply to the request of \<open>page\<close>.
\<close>

fun refs_wait ::
    "string \<Rightarrow> nat \<Rightarrow> crossref list \<Rightarrow> event list \<Rightarrow> state
       \<Rightarrow> (crossref list fetch_result \<times> event list \<times> state) outcome option" where
  "refs_wait language page allCrossrefs [] s = None"
| "refs_wait language page allCrossrefs (UserCancel # evs) s =
     refs_wait language page allCrossrefs evs (cancel s)"
| "refs_wait language page allCrossrefs (RefsReply r # evs) s =
     (case reply_error r of
        Some err \<Rightarrow> Some (Normal (\<lparr>result_data = None, result_error = Some err\<rparr>, evs, s))
      | None \<Rightarrow>
          (case reply_data r of
             None \<Rightarrow> Some (Exception null_data s)
           | Some d \<Rightarrow>
               if refsHasMore d
               then (if cancelDownloadFlag s
                     then Some (Normal (\<lparr>result_data = None, result_error = Some cancelled\<rparr>, evs, s))
                     else refs_wait language (page + 1) (allCrossrefs @ elems (crossrefs d)) evs
                            (request_refs language (page + 1) s))
               else Some (Normal (\<lparr>result_data = Some (allCrossrefs @ elems (crossrefs d)),
                                   result_error = None\<rparr>, evs, s))))"
| "refs_wait language page allCrossrefs (other # evs) s = None"

fun await_refs_saved :: "event list \<Rightarrow> state \<Rightarrow> (idb_env \<times> event list \<times> state) option" where
  \<comment> \<open>\<^verbatim>\<open>await cache.saveCoreData(...)\<close>\<close>
  "await_refs_saved [] s = None"
| "await_refs_saved (UserCancel # evs) s = await_refs_saved evs (cancel s)"
| "await_refs_saved (RefsSaved env # evs) s = Some (env, evs, s)"
| "await_refs_saved (other # evs) s = None"

definition refs_done :: "string \<Rightarrow> bool \<Rightarrow> event list \<Rightarrow> state \<Rightarrow> (bool \<times> event list \<times> state) outcome option" where
  "refs_done language ok evs s = Some (Normal (ok, evs, record_entry (RefsFinished language ok) s))"

definition downloadAndProcessCrossRefs ::
    "string \<Rightarrow> event list \<Rightarrow> state \<Rightarrow> (bool \<times> event list \<times> state) outcome option" where
  "downloadAndProcessCrossRefs language evs s =
     (if cancelDownloadFlag s then refs_done language False evs s
      else then_do (refs_wait language 0 [] evs (request_refs language 0 s))
        (\<lambda>fetched.
           (let allCrossrefs = result_data (fst fetched);
                evs1 = fst (snd fetched);
                s1 = snd (snd fetched)
            in if cancelDownloadFlag s1 then refs_done language False evs1 s1
               else if result_error (fst fetched) \<noteq> None
               then refs_done language False evs1 (s1\<lparr>isSuccess := False\<rparr>)
               else if \<not> nonempty allCrossrefs then refs_done language True evs1 s1
               else (case await_refs_saved evs1
                            (s1\<lparr>downloadProgress := (downloadProgress s1)
                                  \<lparr>currentBookName := ''Saving '' @ show_nat (length (elems allCrossrefs))
                                                        @ '' Cross-Refs...''\<rparr>\<rparr>) of
                       None \<Rightarrow> None
                     | Some saved \<Rightarrow>
                         (let env = fst saved; evs2 = fst (snd saved); s2 = snd (snd saved);
                              r = saveCoreData env (''crossrefs_'' @ language) (elems allCrossrefs) (cache s2);
                              s3 = s2\<lparr>cache := fst r\<rparr>
                          in case snd r of
                               None \<Rightarrow> None
                             | Some saveSuccess \<Rightarrow>
                                 if \<not> saveSuccess
                                 then refs_done language False evs2 (s3\<lparr>isSuccess := False\<rparr>)
                                 else refs_done language True evs2 s3)))))"

subsection \<open>The run\<close>

record resource_flags =
  bible :: bool
  commentary :: bool
  ref :: bool

record lang_tasks =
  am :: resource_flags
  en :: resource_flags

fun split_on :: "char \<Rightarrow> string \<Rightarrow> string list" where
  \<comment> \<open>\<^verbatim>\<open>String.prototype.split\<close> with a separator of one character\<close>
  "split_on c [] = [[]]"
| "split_on c (x # xs) =
     (if x = c then [] # split_on c xs
      else case split_on c xs of
             [] \<Rightarrow> [[x]]
           | p # ps \<Rightarrow> (x # p) # ps)"

definition set_type :: "string option \<Rightarrow> resource_flags \<Rightarrow> resource_flags" where
  \<comment> \<open>\<^verbatim>\<open>tasks[lang][type] = true\<close>: a type other than the three sets a property nothing reads\<close>
  "set_type ty f =
     (if ty = Some ''bible'' then f\<lparr>bible := True\<rparr>
      else if ty = Some ''commentary'' then f\<lparr>commentary := True\<rparr>
      else if ty = Some ''ref'' then f\<lparr>ref := True\<rparr>
      else f)"

definition mark_task :: "string \<Rightarrow> lang_tasks \<Rightarrow> lang_tasks" where
  \<comment> \<open>\<^verbatim>\<open>const [lang, type] = id.split('-'); if (tasks[lang]) tasks[lang][type] = true;\<close>\<close>
  "mark_task resource_id tasks =
     (case split_on CHR ''-'' resource_id of
        [] \<Rightarrow> tasks
      | lang # parts \<Rightarrow>
          (let ty = (case parts of [] \<Rightarrow> None | t # ts \<Rightarrow> Some t)
           in if lang = ''am'' then tasks\<lparr>am := set_type ty (am tasks)\<rparr>
              else if lang = ''en'' then tasks\<lparr>en := set_type ty (en tasks)\<rparr>
              else tasks))"

definition no_tasks :: lang_tasks where
  "no_tasks = \<lparr>am = \<lparr>bible = False, commentary = False, ref = False\<rparr>,
               en = \<lparr>bible = False, commentary = False, ref = False\<rparr>\<rparr>"

definition tasks_for :: "lang_tasks \<Rightarrow> string \<Rightarrow> resource_flags" where
  \<comment> \<open>\<^verbatim>\<open>tasks[lang]\<close>, for the two languages of the loop\<close>
  "tasks_for tasks lang = (if lang = ''am'' then am tasks else en tasks)"

definition mark_downloaded :: "string \<Rightarrow> state \<Rightarrow> state" where
  \<comment> \<open>\<^verbatim>\<open>currentState.downloadedResources[id] = true\<close> and the ledger written to
      \<^verbatim>\<open>localStorage\<close>\<close>
  "mark_downloaded resource_id s =
     s\<lparr>downloadedResources := (downloadedResources s)(resource_id := True),
       stored_downloadedResources := (downloadedResources s)(resource_id := True)\<rparr>"

definition finalize_books :: "string \<Rightarrow> resource_flags \<Rightarrow> bool \<Rightarrow> bool \<Rightarrow> state \<Rightarrow> state" where
  "finalize_books lang flags fetchVerses fetchComm s =
     (if \<not> cancelDownloadFlag s \<and> isSuccess s
      then (let r1 = (if fetchVerses then (downloadedResources s)(lang @ ''-bible'' := True)
                      else downloadedResources s);
                r2 = (if fetchComm then r1(lang @ ''-commentary'' := True) else r1);
                r3 = (if bible flags then r2(lang @ ''-bible'' := True) else r2);
                r4 = (if commentary flags then r3(lang @ ''-commentary'' := True) else r3)
            in s\<lparr>downloadedResources := r4, stored_downloadedResources := r4\<rparr>)
      else s)"

definition booksToDownload :: "state \<Rightarrow> book_info list" where
  "booksToDownload s = sort_key book_order (filter (\<lambda>book. chapters book > 0) (booksInfo s))"

definition upper_lang :: "string \<Rightarrow> string" where
  \<comment> \<open>\<^verbatim>\<open>lang.toUpperCase()\<close> of the two language codes\<close>
  "upper_lang lang = (if lang = ''am'' then ''AM'' else if lang = ''en'' then ''EN'' else lang)"

definition download_books ::
    "string \<Rightarrow> resource_flags \<Rightarrow> event list \<Rightarrow> state \<Rightarrow> (event list \<times> state) outcome option" where
  "download_books lang flags evs s =
     (let fetchVerses = (bible flags \<and> \<not> downloadedResources s (lang @ ''-bible''));
          fetchComm = (commentary flags \<and> \<not> downloadedResources s (lang @ ''-commentary''))
      in if fetchVerses \<or> fetchComm
         then then_do
                (run_batches lang (batches (booksToDownload s)) evs
                   (s\<lparr>downloadProgress :=
                        \<lparr>progress_language = Some lang, currentBookId = None,
                         currentBookName = ''Preparing Books...'', currentChapter = 0,
                         totalChaptersInBook = 0,
                         totalChaptersOverall = sum_list (map chapters (booksToDownload s)),
                         downloadedChaptersOverall = 0\<rparr>\<rparr>))
                (\<lambda>es. Some (Normal (fst es, finalize_books lang flags fetchVerses fetchComm (snd es))))
         else if (bible flags \<or> commentary flags) \<and> \<not> ref flags
         then Some (Normal (evs, showTempMessage
                 (''Selected book resources for '' @ upper_lang lang @ '' are already downloaded.'')
                 ''info'' s))
         else Some (Normal (evs, s)))"

definition download_language ::
    "lang_tasks \<Rightarrow> string \<Rightarrow> event list \<Rightarrow> state \<Rightarrow> (event list \<times> state) outcome option" where
  \<comment> \<open>one turn of the loop over \<^verbatim>\<open>languagesToProcess\<close>, past the test of the flag\<close>
  "download_language tasks lang evs s =
     (let flags = tasks_for tasks lang
      in if ref flags
         then then_do
                (downloadAndProcessCrossRefs lang evs
                   (s\<lparr>downloadProgress :=
                        \<lparr>progress_language = Some lang, currentBookId = None,
                         currentBookName = ''Cross-References'', currentChapter = 0,
                         totalChaptersInBook = 0, totalChaptersOverall = 0,
                         downloadedChaptersOverall = 0\<rparr>\<rparr>))
                (\<lambda>crossrefs_result. download_books lang flags (fst (snd crossrefs_result))
                           (if fst crossrefs_result then mark_downloaded (lang @ ''-ref'') (snd (snd crossrefs_result))
                            else snd (snd crossrefs_result)))
         else download_books lang flags evs s)"

fun download_languages ::
    "lang_tasks \<Rightarrow> string list \<Rightarrow> event list \<Rightarrow> state \<Rightarrow> (event list \<times> state) outcome option" where
  "download_languages tasks [] evs s = Some (Normal (evs, s))"
| "download_languages tasks (lang # langs) evs s =
     (if cancelDownloadFlag s then Some (Normal (evs, s))
      else then_do (download_language tasks lang evs s)
             (\<lambda>es. download_languages tasks langs (fst es) (snd es)))"

definition wanted :: "resource_flags \<Rightarrow> bool" where
  "wanted flags \<longleftrightarrow> bible flags \<or> commentary flags \<or> ref flags"

definition finally_block :: "state \<Rightarrow> state" where
  "finally_block s = s\<lparr>isDownloading := False, cancelDownloadFlag := False\<rparr>"

definition start :: "bool \<Rightarrow> string list \<Rightarrow> event list \<Rightarrow> state \<Rightarrow> state option" where
  \<comment> \<open>\<open>supabaseClient\<close>: whether the module was given a client. \<open>None\<close>: under these events
      the run never settles.\<close>
  "start supabaseClient resourcesToDownload evs s =
     (if isDownloading s then Some s
      else if \<not> supabaseClient
      then Some (showTempMessage ''Cannot download: Database not connected.'' ''error'' s)
      else if resourcesToDownload = []
      then Some (showTempMessage ''No resources selected.'' ''info'' s)
      else (let s1 = s\<lparr>isDownloading := True, cancelDownloadFlag := False, isSuccess := True,
                        run_log := []\<rparr>;
                tasks = fold mark_task resourcesToDownload no_tasks;
                languagesToProcess = filter (\<lambda>lang. wanted (tasks_for tasks lang)) [''am'', ''en'']
            in case download_languages tasks languagesToProcess evs s1 of
                 None \<Rightarrow> None
               | Some (Normal es) \<Rightarrow>
                   Some (finally_block (showTempMessage ''Download process finished.''
                           (if isSuccess (snd es) then ''success'' else ''warning'') (snd es)))
               | Some (Exception e s2) \<Rightarrow>
                   Some (finally_block (showTempMessage ''Download failed.'' ''error'' s2))))"

subsection \<open>Sample runs\<close>

definition book :: "string \<Rightarrow> int \<Rightarrow> book_info" where
  "book name n = \<lparr>book_id = name, chapters = 1, book_order = n, englishName = None, amharicName = None\<rparr>"

definition idle_state :: state where
  \<comment> \<open>nothing downloaded yet, no run in progress, four books\<close>
  "idle_state =
     \<lparr>isDownloading = False, cancelDownloadFlag = False,
      downloadedResources = (\<lambda>r. False),
      downloadProgress = \<lparr>progress_language = None, currentBookId = None, currentBookName = [],
                          currentChapter = 0, totalChaptersInBook = 0, totalChaptersOverall = 0,
                          downloadedChaptersOverall = 0\<rparr>,
      booksInfo = [book ''genesis'' 1, book ''exodus'' 2, book ''leviticus'' 3, book ''numbers'' 4],
      cache = [],
      stored_downloadedResources = (\<lambda>r. False),
      isSuccess = True, messages = [], run_log = []\<rparr>"

definition last_page :: "book_page brain_reply" where
  \<comment> \<open>a book of one row: its only page\<close>
  "last_page = book_page_reply [sample_row] []"

definition failed_page :: "book_page brain_reply" where
  "failed_page =
     \<lparr>reply_data = None,
      reply_error = Some (JsException (JsError ''FunctionsHttpError''
                            ''Edge Function returned a non-2xx status code''))\<rparr>"


definition all_books_schedule :: "event list" where
  \<comment> \<open>the four books of one language fetched and saved, in two batches\<close>
  "all_books_schedule =
     [BookReply 0 last_page, BookReply 1 last_page, BookReply 2 last_page,
      BookSaved 0 idb_ok, BookSaved 1 idb_ok, BookSaved 2 idb_ok,
      BookReply 0 last_page, BookSaved 0 idb_ok]"

definition quota_schedule :: "event list" where
  \<comment> \<open>as \<open>all_books_schedule\<close>, but the save of the first book fails: the quota is exceeded\<close>
  "quota_schedule =
     [BookReply 0 last_page, BookReply 1 last_page, BookReply 2 last_page,
      BookSaved 0 quota_full, BookSaved 1 idb_ok, BookSaved 2 idb_ok,
      BookReply 0 last_page, BookSaved 0 idb_ok]"

definition first_fetch_fails_schedule :: "event list" where
  \<comment> \<open>the fetch of the first book of the first language fails; everything else succeeds,
      for two languages\<close>
  "first_fetch_fails_schedule =
     [BookReply 0 failed_page, BookReply 1 last_page, BookReply 2 last_page,
      BookSaved 1 idb_ok, BookSaved 2 idb_ok,
      BookReply 0 last_page, BookSaved 0 idb_ok] @ all_books_schedule"

definition cancel_during_refs_save_schedule :: "event list" where
  \<comment> \<open>the cross-references are fetched; the user cancels while they are being saved\<close>
  "cancel_during_refs_save_schedule =
     [RefsReply (crossrefs_page_reply [sample_crossref]), UserCancel, RefsSaved idb_ok]"

definition sample_commentary :: row where
  "sample_commentary = \<lparr>chapter_num = 1, verse_num = 1, rest = [''commentary_text'' \<mapsto> JStr ''C'']\<rparr>"

definition verses_query_fails_page :: "book_page brain_reply" where
  \<comment> \<open>the only page of a book: the query of the verses fails on the server, the query of
      the commentaries returns one row\<close>
  "verses_query_fails_page =
     fetch_book_full
       \<lparr>result_data = None,
        result_error = Some (PostgrestError ''57014'' ''canceling statement due to statement timeout'')\<rparr>
       \<lparr>result_data = Some [sample_commentary], result_error = None\<rparr>"

definition verses_query_fails_schedule :: "event list" where
  \<comment> \<open>as \<open>all_books_schedule\<close>, but the query of the verses fails for every book\<close>
  "verses_query_fails_schedule =
     [BookReply 0 verses_query_fails_page, BookReply 1 verses_query_fails_page,
      BookReply 2 verses_query_fails_page,
      BookSaved 0 idb_ok, BookSaved 1 idb_ok, BookSaved 2 idb_ok,
      BookReply 0 verses_query_fails_page, BookSaved 0 idb_ok]"

definition stored_texts :: "store \<Rightarrow> (string \<times> (jsval option \<times> jsval option) list) list" where
  \<comment> \<open>for every key of the store, the \<^verbatim>\<open>verse_text\<close> and the \<^verbatim>\<open>commentary_text\<close> of
      the rows of its record\<close>
  "stored_texts st =
     map (\<lambda>kv. (fst kv, map (\<lambda>r. (rest r ''verse_text'', rest r ''commentary_text''))
                         (existing_rows (Some (snd kv))))) st"

section \<open>Properties of the store keys\<close>

lemma digit_char_inj: "a < 10 \<Longrightarrow> b < 10 \<Longrightarrow> digit_char a = digit_char b \<Longrightarrow> a = b"
proof -
  assume a: "a < 10" and b: "b < 10" and e: "digit_char a = digit_char b"
  have d: "distinct ''0123456789''" by simp
  have "length ''0123456789'' = 10" by simp
  with a b d e show ?thesis unfolding digit_char_def
    by (metis nth_eq_iff_index_eq)
qed

lemma digit_char_in: "d < 10 \<Longrightarrow> digit_char d \<in> set ''0123456789''"
  unfolding digit_char_def by (rule nth_mem) simp

lemma digit_char_not_minus: "d < 10 \<Longrightarrow> digit_char d \<noteq> CHR ''-''"
  using digit_char_in [of d] by auto

lemma show_nat_small: "n < 10 \<Longrightarrow> show_nat n = [digit_char n]"
  by (simp add: show_nat.simps)

lemma show_nat_big: "\<not> n < 10 \<Longrightarrow> show_nat n = show_nat (n div 10) @ [digit_char (n mod 10)]"
  by (subst show_nat.simps) simp

lemma show_nat_nonempty: "show_nat n \<noteq> []"
  by (subst show_nat.simps) simp

lemma show_nat_digits: "c \<in> set (show_nat n) \<Longrightarrow> c \<noteq> CHR ''-''"
proof (induction n rule: show_nat.induct)
  case (1 n)
  show ?case
  proof (cases "n < 10")
    case True
    with 1(2) show ?thesis by (auto simp: show_nat_small digit_char_not_minus)
  next
    case False
    have "n mod 10 < 10" by simp
    from digit_char_not_minus [OF this] have d: "digit_char (n mod 10) \<noteq> CHR ''-''" .
    from 1(2) False have "c \<in> set (show_nat (n div 10)) \<or> c = digit_char (n mod 10)"
      by (auto simp: show_nat_big)
    with 1(1) [OF False] d show ?thesis by auto
  qed
qed

lemma show_nat_inj: "show_nat m = show_nat n \<Longrightarrow> m = n"
proof (induction m arbitrary: n rule: show_nat.induct)
  case (1 m)
  show ?case
  proof (cases "m < 10")
    case True
    note m = this
    show ?thesis
    proof (cases "n < 10")
      case True
      with m 1(2) show ?thesis by (auto simp: show_nat_small dest: digit_char_inj)
    next
      case False
      with m 1(2) show ?thesis using show_nat_nonempty [of "n div 10"]
        by (simp add: show_nat_small show_nat_big)
    qed
  next
    case False
    note m = this
    show ?thesis
    proof (cases "n < 10")
      case True
      with m 1(2) show ?thesis using show_nat_nonempty [of "m div 10"]
        by (simp add: show_nat_small show_nat_big)
    next
      case False
      with m 1(2) have e: "show_nat (m div 10) = show_nat (n div 10)"
        and d: "digit_char (m mod 10) = digit_char (n mod 10)"
        by (simp_all add: show_nat_big)
      from 1(1) [OF m e] have "m div 10 = n div 10" .
      moreover have "m mod 10 < 10" "n mod 10 < 10" by simp_all
      from digit_char_inj [OF this d] have "m mod 10 = n mod 10" .
      ultimately have "m div 10 * 10 + m mod 10 = n div 10 * 10 + n mod 10" by simp
      then show ?thesis by simp
    qed
  qed
qed

lemma hd_show_nat: "hd (show_nat n) \<noteq> CHR ''-''"
proof -
  have "hd (show_nat n) \<in> set (show_nat n)" by (rule hd_in_set) (rule show_nat_nonempty)
  then show ?thesis by (rule show_nat_digits)
qed

lemma hd_show_int: "hd (show_int i) = CHR ''-'' \<longleftrightarrow> i < 0"
  by (simp add: show_int_def hd_show_nat)

lemma show_int_inj: "show_int i = show_int j \<Longrightarrow> i = j"
proof -
  assume e: "show_int i = show_int j"
  then have s: "i < 0 \<longleftrightarrow> j < 0" by (metis hd_show_int)
  show ?thesis
  proof (cases "i < 0")
    case True
    with s e have "show_nat (nat (- i)) = show_nat (nat (- j))" by (simp add: show_int_def)
    then have "nat (- i) = nat (- j)" by (rule show_nat_inj)
    with True s show ?thesis by simp
  next
    case False
    with s e have "show_nat (nat i) = show_nat (nat j)" by (simp add: show_int_def)
    then have "nat i = nat j" by (rule show_nat_inj)
    with False s show ?thesis by simp
  qed
qed


lemma chapter_key_inj: "chapter_key b i l = chapter_key b j l \<Longrightarrow> i = j"
proof -
  assume "chapter_key b i l = chapter_key b j l"
  then have "show_int i = show_int j" by (simp add: chapter_key_def)
  then show ?thesis by (rule show_int_inj)
qed

section \<open>Properties of the chapter merge\<close>

lemma elems_nonempty: "\<not> nonempty xs \<Longrightarrow> elems xs = []"
  by (simp add: nonempty_def elems_def split: option.splits)

lemma merge_verse_overlay: "merge_verse c = (\<lambda>v. overlay c (fst (verse_op v)) (snd (verse_op v)))"
  by (rule ext, rule ext) (simp add: merge_verse_def overlay_def verse_op_def)

lemma merge_commentary_overlay:
  "merge_commentary c = (\<lambda>cm. overlay c (fst (commentary_op cm)) (snd (commentary_op cm)))"
  by (rule ext, rule ext) (simp add: merge_commentary_def overlay_def commentary_op_def)

lemma fold_merge_verse:
  "fold (merge_verse c) xs m = fold (\<lambda>ku. overlay c (fst ku) (snd ku)) (map verse_op xs) m"
  by (simp add: fold_map comp_def merge_verse_overlay)

lemma fold_merge_commentary:
  "fold (merge_commentary c) xs m = fold (\<lambda>ku. overlay c (fst ku) (snd ku)) (map commentary_op xs) m"
  by (simp add: fold_map comp_def merge_commentary_overlay)

lemma merge_chapter_merged_map: "merge_chapter p c rows = sort_key verse_num (map snd (merged_map p c rows))"
proof -
  have v: "(if nonempty (verses p)
            then fold (merge_verse c) (filter (\<lambda>v. chapter_num v = c) (elems (verses p))) m
            else m) = fold (merge_verse c) (filter (\<lambda>v. chapter_num v = c) (elems (verses p))) m" for m
    by (simp add: elems_nonempty)
  have k: "(if nonempty (commentaries p)
            then fold (merge_commentary c) (filter (\<lambda>v. chapter_num v = c) (elems (commentaries p))) m
            else m) = fold (merge_commentary c) (filter (\<lambda>v. chapter_num v = c) (elems (commentaries p))) m" for m
    by (simp add: elems_nonempty)
  show ?thesis
    unfolding merge_chapter_def Let_def v k merged_map_def payload_ops_def
    by (simp add: fold_merge_verse fold_merge_commentary)
qed

lemma set_update_cases: "kr \<in> set (AList.update k v al) \<Longrightarrow> kr = (k, v) \<or> kr \<in> set al"
  by (induction al) (auto split: if_splits)

lemma vm_wf_Nil: "vm_wf []"
  by (simp add: vm_wf_def)

lemma vm_wf_update: "vm_wf m \<Longrightarrow> verse_num r = k \<Longrightarrow> vm_wf (AList.update k r m)"
  unfolding vm_wf_def by (auto simp: distinct_update dest!: set_update_cases)

lemma vm_wf_overlay: "vm_wf m \<Longrightarrow> vm_wf (overlay c n u m)"
  unfolding overlay_def by (rule vm_wf_update) simp_all

lemma vm_wf_fold_overlay: "vm_wf m \<Longrightarrow> vm_wf (fold (\<lambda>ku. overlay c (fst ku) (snd ku)) ops m)"
  by (induction ops arbitrary: m) (simp_all add: vm_wf_overlay)

lemma vm_wf_load_aux: "vm_wf m \<Longrightarrow> vm_wf (fold (\<lambda>v. AList.update (verse_num v) v) rows m)"
  by (induction rows arbitrary: m) (simp_all add: vm_wf_update)

lemma vm_wf_load: "vm_wf (load_existing rows)"
  unfolding load_existing_def by (rule vm_wf_load_aux) (rule vm_wf_Nil)

lemma vm_wf_merged_map: "vm_wf (merged_map p c rows)"
  unfolding merged_map_def by (rule vm_wf_fold_overlay) (rule vm_wf_load)

lemma existing_props_overlay_same: "existing_props (overlay c n u m) n = existing_props m n ++ u"
  by (simp add: existing_props_def overlay_def update_conv')

lemma existing_props_overlay_other: "k \<noteq> n \<Longrightarrow> existing_props (overlay c k u m) n = existing_props m n"
  by (simp add: existing_props_def overlay_def update_conv')

lemma map_of_overlay_same: "map_of (overlay c n u m) n = Some \<lparr>chapter_num = c, verse_num = n, rest = existing_props m n ++ u\<rparr>"
  by (simp add: overlay_def update_conv')

lemma map_of_overlay_other: "k \<noteq> n \<Longrightarrow> map_of (overlay c k u m) n = map_of m n"
  by (simp add: overlay_def update_conv')

lemma combined_Cons: "combined (u # us) = u ++ combined us"
  by (simp add: combined_def)

lemma combined_Nil: "combined [] = Map.empty"
  by (simp add: combined_def)

lemma map_of_fold_overlay:
  "map_of (fold (\<lambda>ku. overlay c (fst ku) (snd ku)) ops m) n =
     (if ops_for n ops = [] then map_of m n
      else Some \<lparr>chapter_num = c, verse_num = n, rest = existing_props m n ++ combined (ops_for n ops)\<rparr>)"
proof (induction ops arbitrary: m)
  case Nil
  then show ?case by (simp add: ops_for_def)
next
  case (Cons ku ops)
  show ?case
  proof (cases "fst ku = n")
    case False
    then have "ops_for n (ku # ops) = ops_for n ops" by (simp add: ops_for_def)
    with False Cons [of "overlay c (fst ku) (snd ku) m"] show ?thesis
      by (simp add: map_of_overlay_other existing_props_overlay_other)
  next
    case True
    then have o: "ops_for n (ku # ops) = snd ku # ops_for n ops" by (simp add: ops_for_def)
    show ?thesis
    proof (cases "ops_for n ops = []")
      case True
      with \<open>fst ku = n\<close> o Cons [of "overlay c (fst ku) (snd ku) m"] show ?thesis
        by (simp add: map_of_overlay_same combined_Cons combined_Nil)
    next
      case False
      with \<open>fst ku = n\<close> o Cons [of "overlay c (fst ku) (snd ku) m"] show ?thesis
        by (simp add: existing_props_overlay_same combined_Cons)
    qed
  qed
qed

lemma map_of_merged_map:
  "map_of (merged_map p c rows) n =
     (if ops_for n (payload_ops p c) = [] then map_of (load_existing rows) n
      else Some \<lparr>chapter_num = c, verse_num = n,
             rest = existing_props (load_existing rows) n ++ combined (ops_for n (payload_ops p c))\<rparr>)"
  unfolding merged_map_def by (rule map_of_fold_overlay)

lemma find_distinct_key:
  "distinct (map f xs) \<Longrightarrow> x \<in> set xs \<Longrightarrow> find (\<lambda>y. f y = f x) xs = Some x"
  by (induction xs) (auto simp: image_iff)

lemma find_none_key: "k \<notin> f ` set xs \<Longrightarrow> find (\<lambda>y. f y = k) xs = None"
  by (induction xs) auto

lemma vm_wf_keys: "vm_wf m \<Longrightarrow> map verse_num (map snd m) = map fst m"
  by (simp add: vm_wf_def)

lemma vm_wf_distinct_values: "vm_wf m \<Longrightarrow> distinct (map verse_num (map snd m))"
  by (subst vm_wf_keys) (simp_all add: vm_wf_def)

lemma distinct_map_sort_key: "distinct (map f xs) \<Longrightarrow> distinct (map f (sort_key g xs))"
  by (simp add: distinct_map)

lemma vm_wf_map_of_mem: "vm_wf m \<Longrightarrow> map_of m n = Some r \<longleftrightarrow> (n, r) \<in> set m"
  by (simp add: vm_wf_def)

lemma find_verse_sorted_values:
  assumes "vm_wf m"
  shows "find_verse n (sort_key verse_num (map snd m)) = map_of m n"
proof (cases "map_of m n")
  case None
  then have "n \<notin> fst ` set m" by (simp add: map_of_eq_None_iff)
  moreover have "verse_num ` set (sort_key verse_num (map snd m)) = fst ` set m"
    using vm_wf_keys [OF assms] by (metis set_map set_sort)
  ultimately show ?thesis using None unfolding find_verse_def by (simp add: find_none_key)
next
  case (Some r)
  with assms have mem: "(n, r) \<in> set m" by (simp add: vm_wf_map_of_mem)
  with assms have k: "verse_num r = n" by (auto simp: vm_wf_def)
  from mem have "r \<in> set (sort_key verse_num (map snd m))" by force
  moreover have "distinct (map verse_num (sort_key verse_num (map snd m)))"
    by (rule distinct_map_sort_key) (rule vm_wf_distinct_values [OF assms])
  ultimately have "find (\<lambda>y. verse_num y = verse_num r) (sort_key verse_num (map snd m)) = Some r"
    by (rule find_distinct_key [rotated])
  with k Some show ?thesis by (simp add: find_verse_def)
qed

lemma find_append:
  "find P (xs @ ys) = (case find P xs of None \<Rightarrow> find P ys | Some x \<Rightarrow> Some x)"
  by (induction xs) auto

lemma map_of_load_aux:
  "map_of (fold (\<lambda>v. AList.update (verse_num v) v) rows m) n =
     (case find_verse n (rev rows) of None \<Rightarrow> map_of m n | Some r \<Rightarrow> Some r)"
proof (induction rows arbitrary: m)
  case Nil
  then show ?case by (simp add: find_verse_def)
next
  case (Cons v rows)
  show ?case
    by (simp add: Cons find_verse_def find_append update_conv' split: option.splits)
qed

lemma map_of_load: "map_of (load_existing rows) n = find_verse n (rev rows)"
  unfolding load_existing_def by (simp add: map_of_load_aux split: option.splits)

lemma map_of_load_distinct:
  assumes "distinct (map verse_num rows)" "e \<in> set rows"
  shows "map_of (load_existing rows) (verse_num e) = Some e"
proof -
  from assms have "distinct (map verse_num (rev rows))" "e \<in> set (rev rows)"
    by (simp_all add: rev_map [symmetric])
  then show ?thesis unfolding map_of_load find_verse_def by (rule find_distinct_key)
qed

lemma map_of_load_sorted_values:
  assumes "vm_wf m"
  shows "map_of (load_existing (sort_key verse_num (map snd m))) n = map_of m n"
proof (cases "map_of m n")
  case None
  then have "n \<notin> fst ` set m" by (simp add: map_of_eq_None_iff)
  moreover have "verse_num ` set (rev (sort_key verse_num (map snd m))) = fst ` set m"
    using vm_wf_keys [OF assms] by (metis set_map set_sort set_rev)
  ultimately show ?thesis using None unfolding map_of_load find_verse_def
    by (simp add: find_none_key)
next
  case (Some r)
  with assms have mem: "(n, r) \<in> set m" by (simp add: vm_wf_map_of_mem)
  with assms have k: "verse_num r = n" by (auto simp: vm_wf_def)
  from mem have "r \<in> set (sort_key verse_num (map snd m))" by force
  moreover have "distinct (map verse_num (sort_key verse_num (map snd m)))"
    by (rule distinct_map_sort_key) (rule vm_wf_distinct_values [OF assms])
  ultimately have "map_of (load_existing (sort_key verse_num (map snd m))) (verse_num r) = Some r"
    by (rule map_of_load_distinct [rotated])
  with k Some show ?thesis by simp
qed

lemma existing_props_cong: "map_of m n = map_of m' n \<Longrightarrow> existing_props m n = existing_props m' n"
  by (simp add: existing_props_def)

lemma map_add_twice: "(a ++ u) ++ u = a ++ (u::'a \<rightharpoonup> 'b)"
  by (rule ext) (simp add: map_add_def split: option.splits)

lemma map_of_merged_twice:
  "map_of (merged_map p c (merge_chapter p c rows)) n = map_of (merged_map p c rows) n"
proof -
  let ?m1 = "merged_map p c rows"
  have wf: "vm_wf ?m1" by (rule vm_wf_merged_map)
  have l: "map_of (load_existing (merge_chapter p c rows)) n = map_of ?m1 n"
    unfolding merge_chapter_merged_map by (rule map_of_load_sorted_values [OF wf])
  show ?thesis
  proof (cases "ops_for n (payload_ops p c) = []")
    case True
    then show ?thesis by (simp add: map_of_merged_map l)
  next
    case False
    have "existing_props (load_existing (merge_chapter p c rows)) n = existing_props ?m1 n"
      by (rule existing_props_cong) (rule l)
    also have "\<dots> = existing_props (load_existing rows) n ++ combined (ops_for n (payload_ops p c))"
      using False by (simp add: existing_props_def map_of_merged_map)
    finally show ?thesis using False by (simp add: map_of_merged_map map_add_twice)
  qed
qed

lemma vm_wf_set_values: "vm_wf m \<Longrightarrow> set (map snd m) = ran (map_of m)"
  by (auto simp: vm_wf_def ran_def image_iff) force+

lemma merge_chapter_sorted: "sorted (map verse_num (merge_chapter p c rows))"
  unfolding merge_chapter_merged_map by simp

lemma merge_chapter_distinct: "distinct (map verse_num (merge_chapter p c rows))"
  unfolding merge_chapter_merged_map
  by (rule distinct_map_sort_key) (rule vm_wf_distinct_values [OF vm_wf_merged_map])

lemma set_merge_chapter: "set (merge_chapter p c rows) = ran (map_of (merged_map p c rows))"
  unfolding merge_chapter_merged_map using vm_wf_set_values [OF vm_wf_merged_map] by simp

lemma merge_chapter_idem: "merge_chapter p c (merge_chapter p c rows) = merge_chapter p c rows"
proof -
  let ?a = "merge_chapter p c (merge_chapter p c rows)" and ?b = "merge_chapter p c rows"
  have "map_of (merged_map p c ?b) = map_of (merged_map p c rows)"
    by (rule ext) (rule map_of_merged_twice)
  then have s: "set ?a = set ?b" by (simp add: set_merge_chapter)
  have "inj_on verse_num (set ?b)" using merge_chapter_distinct [of p c rows] by (simp add: distinct_map)
  with s have "inj_on verse_num (set ?a \<union> set ?b)" by simp
  then show ?thesis
    by (rule map_sorted_distinct_set_unique)
       (simp_all add: merge_chapter_sorted merge_chapter_distinct s)
qed

section \<open>Properties of the batch save\<close>

lemma distinct_set_add: "distinct s \<Longrightarrow> distinct (set_add x s)"
  by (simp add: set_add_def)

lemma set_set_add: "set (set_add x s) = insert x (set s)"
  by (auto simp: set_add_def)

lemma distinct_fold_set_add: "distinct s \<Longrightarrow> distinct (fold (\<lambda>v. set_add (f v)) xs s)"
  by (induction xs arbitrary: s) (simp_all add: distinct_set_add)

lemma set_fold_set_add: "set (fold (\<lambda>v. set_add (f v)) xs s) = f ` set xs \<union> set s"
  by (induction xs arbitrary: s) (auto simp: set_set_add)

lemma distinct_touched_chapters: "distinct (touched_chapters p)"
  unfolding touched_chapters_def by (intro distinct_fold_set_add) simp

lemma set_touched_chapters:
  "set (touched_chapters p) = chapter_num ` (set (elems (verses p)) \<union> set (elems (commentaries p)))"
  unfolding touched_chapters_def by (auto simp: set_fold_set_add)

lemma committed_put_chapter: "committed (put_chapter b l p c t) = committed t"
  by (simp add: put_chapter_def Let_def)

lemma committed_fold_put: "committed (fold (put_chapter b l p) cs t) = committed t"
  by (induction cs arbitrary: t) (simp_all add: committed_put_chapter)

lemma working_put_same:
  "map_of (working (put_chapter b l p c t)) (chapter_key b c l) =
     Some (ChapterEntry (merge_chapter p c (existing_rows (map_of (working t) (chapter_key b c l)))) True)"
  by (simp add: put_chapter_def Let_def update_conv')

lemma working_put_other:
  "k \<noteq> chapter_key b c l \<Longrightarrow> map_of (working (put_chapter b l p c t)) k = map_of (working t) k"
  by (simp add: put_chapter_def Let_def update_conv')

lemma working_fold_put_other:
  "\<forall>c \<in> set cs. k \<noteq> chapter_key b c l \<Longrightarrow>
     map_of (working (fold (put_chapter b l p) cs t)) k = map_of (working t) k"
  by (induction cs arbitrary: t) (simp_all add: working_put_other)

lemma working_fold_put_same:
  "distinct cs \<Longrightarrow> c \<in> set cs \<Longrightarrow>
     map_of (working (fold (put_chapter b l p) cs t)) (chapter_key b c l) =
       Some (ChapterEntry (merge_chapter p c (existing_rows (map_of (working t) (chapter_key b c l)))) True)"
proof (induction cs arbitrary: t)
  case Nil
  then show ?case by simp
next
  case (Cons a cs)
  show ?case
  proof (cases "c = a")
    case True
    from Cons.prems(1) have "\<forall>c' \<in> set cs. chapter_key b a l \<noteq> chapter_key b c' l"
      by (auto dest: chapter_key_inj)
    then have "map_of (working (fold (put_chapter b l p) cs (put_chapter b l p a t))) (chapter_key b a l)
        = map_of (working (put_chapter b l p a t)) (chapter_key b a l)"
      by (rule working_fold_put_other)
    with True show ?thesis by (simp add: working_put_same)
  next
    case False
    then have k: "chapter_key b c l \<noteq> chapter_key b a l" by (auto dest: chapter_key_inj)
    from False Cons.prems have "distinct cs" "c \<in> set cs" by simp_all
    from Cons.IH [OF this, of "put_chapter b l p a t"] k show ?thesis
      by (simp add: working_put_other)
  qed
qed

lemma put_chapter_fixed:
  assumes "map_of (working t) (chapter_key b c l) = Some (ChapterEntry (merge_chapter p c rows) True)"
  shows "put_chapter b l p c t = t"
proof -
  have "AList.update (chapter_key b c l) (ChapterEntry (merge_chapter p c rows) True) (working t) = working t"
    by (rule update_triv) (rule assms)
  then show ?thesis using assms by (simp add: put_chapter_def Let_def merge_chapter_idem)
qed

lemma fold_put_fixed:
  assumes "\<forall>c \<in> set cs. \<exists>rows. map_of (working t) (chapter_key b c l) = Some (ChapterEntry (merge_chapter p c rows) True)"
  shows "fold (put_chapter b l p) cs t = t"
  using assms
proof (induction cs)
  case Nil
  then show ?case by simp
next
  case (Cons a cs)
  then obtain rows where "map_of (working t) (chapter_key b a l) = Some (ChapterEntry (merge_chapter p a rows) True)"
    by auto
  then have "put_chapter b l p a t = t" by (rule put_chapter_fixed)
  with Cons show ?case by simp
qed

lemma working_fold_put_again:
  "working (fold (put_chapter b l p) (touched_chapters p)
      (transaction (working (fold (put_chapter b l p) (touched_chapters p) (transaction st)))))
   = working (fold (put_chapter b l p) (touched_chapters p) (transaction st))"
proof -
  let ?cs = "touched_chapters p"
  let ?s1 = "working (fold (put_chapter b l p) ?cs (transaction st))"
  have "\<forall>c \<in> set ?cs. \<exists>rows. map_of (working (transaction ?s1)) (chapter_key b c l)
          = Some (ChapterEntry (merge_chapter p c rows) True)"
  proof
    fix c assume "c \<in> set ?cs"
    from working_fold_put_same [OF distinct_touched_chapters this]
    have "map_of ?s1 (chapter_key b c l) =
       Some (ChapterEntry (merge_chapter p c (existing_rows (map_of (working (transaction st)) (chapter_key b c l)))) True)" .
    then show "\<exists>rows. map_of (working (transaction ?s1)) (chapter_key b c l)
          = Some (ChapterEntry (merge_chapter p c rows) True)"
      by (auto simp: transaction_def)
  qed
  then have "fold (put_chapter b l p) ?cs (transaction ?s1) = transaction ?s1"
    by (rule fold_put_fixed)
  then show ?thesis by (simp add: transaction_def)
qed

lemma saveBook_twice:
  "fst (saveBookChaptersInBatch env bookId language p (fst (saveBookChaptersInBatch env bookId language p st)))
     = fst (saveBookChaptersInBatch env bookId language p st)"
  by (simp add: saveBookChaptersInBatch_def Let_def committed_fold_put working_fold_put_again
        split: option.splits txn_failure.splits) (simp add: transaction_def)

lemma nonempty_elems: "nonempty xs \<longleftrightarrow> elems xs \<noteq> []"
  by (simp add: nonempty_def elems_def split: option.splits)

lemma save_ok_store:
  assumes "open_error env = None" "txn_error env = None"
    and "elems (verses p) \<noteq> [] \<or> elems (commentaries p) \<noteq> []"
  shows "saveBookChaptersInBatch env b l p st =
     (working (fold (put_chapter b l p) (touched_chapters p) (transaction st)),
      Some \<lparr>savedCount = length (touched_chapters p), error = None\<rparr>)"
  using assms by (auto simp: saveBookChaptersInBatch_def Let_def nonempty_elems)

lemma save_ok_entry:
  assumes "open_error env = None" "txn_error env = None"
    and "c \<in> chapter_num ` (set (elems (verses p)) \<union> set (elems (commentaries p)))"
  shows "map_of (fst (saveBookChaptersInBatch env b l p st)) (chapter_key b c l) =
     Some (ChapterEntry (merge_chapter p c (existing_rows (map_of st (chapter_key b c l)))) True)"
proof -
  from assms(3) have ne: "elems (verses p) \<noteq> [] \<or> elems (commentaries p) \<noteq> []" by auto
  from assms(3) have c: "c \<in> set (touched_chapters p)" by (simp add: set_touched_chapters)
  show ?thesis
    unfolding save_ok_store [OF assms(1,2) ne]
    using working_fold_put_same [OF distinct_touched_chapters c, where t = "transaction st"]
    by (simp add: transaction_def)
qed

lemma save_other_key:
  assumes "\<forall>c \<in> set (touched_chapters p). k \<noteq> chapter_key b c l"
  shows "map_of (fst (saveBookChaptersInBatch env b l p st)) k = map_of st k"
  using working_fold_put_other [OF assms, where t = "transaction st"]
  by (simp add: saveBookChaptersInBatch_def Let_def committed_fold_put transaction_def
        split: option.splits txn_failure.splits)

lemma merged_row:
  assumes "distinct (map verse_num old)" "e \<in> set old"
    and "ops_for (verse_num e) (payload_ops p c) \<noteq> []"
  shows "find_verse (verse_num e) (merge_chapter p c old) =
     Some \<lparr>chapter_num = c, verse_num = verse_num e,
           rest = rest e ++ combined (ops_for (verse_num e) (payload_ops p c))\<rparr>"
proof -
  have "existing_props (load_existing old) (verse_num e) = rest e"
    by (simp add: existing_props_def map_of_load_distinct [OF assms(1,2)])
  with assms(3) show ?thesis
    unfolding merge_chapter_merged_map find_verse_sorted_values [OF vm_wf_merged_map]
    by (simp add: map_of_merged_map)
qed

lemma combined_append: "combined (us @ ws) = combined us ++ combined ws"
  by (induction us) (simp_all add: combined_Cons combined_Nil)

lemma ops_for_payload:
  "ops_for n (payload_ops p c) =
     map rest (filter (\<lambda>v. chapter_num v = c \<and> verse_num v = n) (elems (verses p)))
     @ map (\<lambda>cm. [''commentary_text'' \<mapsto> get_prop cm ''commentary_text''])
         (filter (\<lambda>v. chapter_num v = c \<and> verse_num v = n) (elems (commentaries p)))"
  by (simp add: ops_for_def payload_ops_def filter_map comp_def verse_op_def commentary_op_def conj_commute)

lemma combined_commentary:
  "cs \<noteq> [] \<Longrightarrow> combined (map (\<lambda>cm. [k \<mapsto> g cm]) cs) = [k \<mapsto> g (last cs)]"
proof (induction cs)
  case Nil
  then show ?case by simp
next
  case (Cons a cs)
  show ?case
  proof (cases "cs = []")
    case True
    then show ?thesis by (simp add: combined_Cons combined_Nil)
  next
    case False
    have "combined (map (\<lambda>cm. [k \<mapsto> g cm]) (a # cs))
        = [k \<mapsto> g a] ++ combined (map (\<lambda>cm. [k \<mapsto> g cm]) cs)"
      unfolding list.map by (rule combined_Cons)
    also have "\<dots> = [k \<mapsto> g a] ++ [k \<mapsto> g (last cs)]"
      unfolding Cons.IH [OF False] ..
    also have "\<dots> = [k \<mapsto> g (last cs)]"
      by (rule ext) (simp add: map_add_def)
    also have "last cs = last (a # cs)" using False by simp
    finally show ?thesis .
  qed
qed

lemma combined_absent: "\<forall>u \<in> set us. u k = None \<Longrightarrow> combined us k = None"
  by (induction us) (simp_all add: combined_Cons combined_Nil map_add_def)

lemma combined_last: "us \<noteq> [] \<Longrightarrow> last us k = Some x \<Longrightarrow> combined us k = Some x"
proof (induction us)
  case Nil
  then show ?case by simp
next
  case (Cons a us)
  then show ?case
    by (cases "us = []") (simp_all add: combined_Cons combined_Nil map_add_def split: option.splits)
qed

text \<open>
  Claim C1 (field-preserving merge). \<^const>\<open>saveBookChaptersInBatch\<close> merges by verse
  number. Let the stored record of chapter \<open>c\<close> hold one row per verse number and let
  \<open>e\<close> be its row for verse \<open>n\<close>. After a save that succeeds, if the payload has
  commentary rows but no verse row for \<open>(c, n)\<close>, the record holds exactly one row for
  \<open>n\<close>, with the verse text of \<open>e\<close> and the commentary of the last commentary row for
  \<open>(c, n)\<close>; if the payload has verse rows without a \<^verbatim>\<open>commentary_text\<close> property and
  no commentary row for \<open>(c, n)\<close>, the row for \<open>n\<close> keeps the commentary of \<open>e\<close> and
  takes every property of the last verse row.
\<close>

theorem merge_preserves_fields:
  assumes "open_error env = None" and "txn_error env = None"
    and "map_of st (chapter_key bookId c language) = Some (ChapterEntry old d)"
    and "distinct (map verse_num old)" and "e \<in> set old"
    and "st' = fst (saveBookChaptersInBatch env bookId language p st)"
    and "vs = filter (\<lambda>v. chapter_num v = c \<and> verse_num v = verse_num e) (elems (verses p))"
    and "cs = filter (\<lambda>v. chapter_num v = c \<and> verse_num v = verse_num e) (elems (commentaries p))"
  shows "(vs = [] \<and> cs \<noteq> [] \<longrightarrow>
           (\<exists>rows r. map_of st' (chapter_key bookId c language) = Some (ChapterEntry rows True)
              \<and> distinct (map verse_num rows) \<and> find_verse (verse_num e) rows = Some r
              \<and> rest r ''verse_text'' = rest e ''verse_text''
              \<and> rest r ''commentary_text'' = Some (get_prop (last cs) ''commentary_text'')))
       \<and> (cs = [] \<and> vs \<noteq> [] \<and> (\<forall>v \<in> set vs. rest v ''commentary_text'' = None) \<longrightarrow>
           (\<exists>rows r. map_of st' (chapter_key bookId c language) = Some (ChapterEntry rows True)
              \<and> distinct (map verse_num rows) \<and> find_verse (verse_num e) rows = Some r
              \<and> rest r ''commentary_text'' = rest e ''commentary_text''
              \<and> (\<forall>k x. rest (last vs) k = Some x \<longrightarrow> rest r k = Some x)))"
proof (intro conjI impI)
  let ?key = "chapter_key bookId c language"
  let ?n = "verse_num e"
  let ?r = "\<lparr>chapter_num = c, verse_num = ?n, rest = rest e ++ combined (ops_for ?n (payload_ops p c))\<rparr>"
  have ops: "ops_for ?n (payload_ops p c) =
      map rest vs @ map (\<lambda>cm. [''commentary_text'' \<mapsto> get_prop cm ''commentary_text'']) cs"
    unfolding assms(7,8) by (rule ops_for_payload)
  have entry: "map_of st' ?key = Some (ChapterEntry (merge_chapter p c old) True)"
    if "vs \<noteq> [] \<or> cs \<noteq> []"
  proof -
    from that obtain x where "x \<in> set (elems (verses p)) \<union> set (elems (commentaries p))"
      and "chapter_num x = c"
      unfolding assms(7,8) by (auto simp: filter_empty_conv)
    then have "c \<in> chapter_num ` (set (elems (verses p)) \<union> set (elems (commentaries p)))"
      by blast
    from save_ok_entry [OF assms(1,2) this, of bookId language st] show ?thesis
      by (simp add: assms(3,6))
  qed
  have row: "find_verse ?n (merge_chapter p c old) = Some ?r" if "vs \<noteq> [] \<or> cs \<noteq> []"
    by (rule merged_row [OF assms(4,5)]) (use that ops in auto)
  {
    assume a: "vs = [] \<and> cs \<noteq> []"
    then have u: "combined (ops_for ?n (payload_ops p c)) =
        [''commentary_text'' \<mapsto> get_prop (last cs) ''commentary_text'']"
      by (simp add: ops combined_commentary)
    from a entry row merge_chapter_distinct [of p c old]
    show "\<exists>rows r. map_of st' ?key = Some (ChapterEntry rows True)
              \<and> distinct (map verse_num rows) \<and> find_verse ?n rows = Some r
              \<and> rest r ''verse_text'' = rest e ''verse_text''
              \<and> rest r ''commentary_text'' = Some (get_prop (last cs) ''commentary_text'')"
      by (intro exI [of _ "merge_chapter p c old"] exI [of _ ?r]) (simp add: u)
  }
  {
    assume a: "cs = [] \<and> vs \<noteq> [] \<and> (\<forall>v \<in> set vs. rest v ''commentary_text'' = None)"
    then have o: "ops_for ?n (payload_ops p c) = map rest vs" by (simp add: ops)
    from a have none: "combined (map rest vs) ''commentary_text'' = None"
      by (intro combined_absent) simp
    have lst: "combined (map rest vs) k = Some x" if "rest (last vs) k = Some x" for k x
      by (rule combined_last) (use a that in \<open>simp_all add: last_map\<close>)
    from a entry row merge_chapter_distinct [of p c old]
    show "\<exists>rows r. map_of st' ?key = Some (ChapterEntry rows True)
              \<and> distinct (map verse_num rows) \<and> find_verse ?n rows = Some r
              \<and> rest r ''commentary_text'' = rest e ''commentary_text''
              \<and> (\<forall>k x. rest (last vs) k = Some x \<longrightarrow> rest r k = Some x)"
      by (intro exI [of _ "merge_chapter p c old"] exI [of _ ?r])
         (simp add: o none lst map_add_def)
  }
qed

lemma genesis_1_am: "chapter_key ''genesis'' 1 ''am'' = ''genesis-1-am''"
  by (simp add: chapter_key_def show_int_def show_nat.simps digit_char_def)

theorem merge_preserves_fields_witness:
  "(\<exists>rows r. map_of (fst (saveBookChaptersInBatch idb_ok ''genesis'' ''am'' commentary_only_payload text_only_store))
        ''genesis-1-am'' = Some (ChapterEntry rows True)
      \<and> find_verse 1 rows = Some r
      \<and> rest r ''verse_text'' = Some (JStr ''A'') \<and> rest r ''commentary_text'' = Some (JStr ''C''))
   \<and> (\<exists>rows r. map_of (fst (saveBookChaptersInBatch idb_ok ''genesis'' ''am'' text_only_payload commentary_only_store))
        ''genesis-1-am'' = Some (ChapterEntry rows True)
      \<and> find_verse 1 rows = Some r
      \<and> rest r ''verse_text'' = Some (JStr ''A'') \<and> rest r ''commentary_text'' = Some (JStr ''C''))"
proof
  let ?e = "\<lparr>chapter_num = 1, verse_num = 1, rest = [''verse_text'' \<mapsto> JStr ''A'']\<rparr>"
  let ?c = "\<lparr>chapter_num = 1, verse_num = 1, rest = [''commentary_text'' \<mapsto> JStr ''C'']\<rparr>"
  have env: "open_error idb_ok = None" "txn_error idb_ok = None"
    by (simp_all add: idb_ok_def)
  have old: "map_of text_only_store (chapter_key ''genesis'' 1 ''am'') = Some (ChapterEntry [?e] False)"
    by (simp add: genesis_1_am text_only_store_def)
  have uniq: "distinct (map verse_num [?e])" and mem: "?e \<in> set [?e]"
    by simp_all
  have vs: "[] = filter (\<lambda>v. chapter_num v = 1 \<and> verse_num v = verse_num ?e)
      (elems (verses commentary_only_payload))"
    by (simp add: commentary_only_payload_def elems_def)
  have cs: "[?c] = filter (\<lambda>v. chapter_num v = 1 \<and> verse_num v = verse_num ?e)
      (elems (commentaries commentary_only_payload))"
    by (simp add: commentary_only_payload_def elems_def)
  from merge_preserves_fields [OF env old uniq mem refl vs cs, THEN conjunct1]
  show "\<exists>rows r. map_of (fst (saveBookChaptersInBatch idb_ok ''genesis'' ''am'' commentary_only_payload text_only_store))
        ''genesis-1-am'' = Some (ChapterEntry rows True)
      \<and> find_verse 1 rows = Some r
      \<and> rest r ''verse_text'' = Some (JStr ''A'') \<and> rest r ''commentary_text'' = Some (JStr ''C'')"
    by (simp add: genesis_1_am get_prop_def) blast
next
  let ?e = "\<lparr>chapter_num = 1, verse_num = 1, rest = [''commentary_text'' \<mapsto> JStr ''C'']\<rparr>"
  let ?v = "\<lparr>chapter_num = 1, verse_num = 1, rest = [''verse_text'' \<mapsto> JStr ''A'']\<rparr>"
  have env: "open_error idb_ok = None" "txn_error idb_ok = None"
    by (simp_all add: idb_ok_def)
  have old: "map_of commentary_only_store (chapter_key ''genesis'' 1 ''am'') = Some (ChapterEntry [?e] True)"
    by (simp add: genesis_1_am commentary_only_store_def)
  have uniq: "distinct (map verse_num [?e])" and mem: "?e \<in> set [?e]"
    by simp_all
  have vs: "[?v] = filter (\<lambda>v. chapter_num v = 1 \<and> verse_num v = verse_num ?e)
      (elems (verses text_only_payload))"
    by (simp add: text_only_payload_def elems_def)
  have cs: "[] = filter (\<lambda>v. chapter_num v = 1 \<and> verse_num v = verse_num ?e)
      (elems (commentaries text_only_payload))"
    by (simp add: text_only_payload_def elems_def)
  from merge_preserves_fields [OF env old uniq mem refl vs cs, THEN conjunct2]
  obtain rows r where
    1: "map_of (fst (saveBookChaptersInBatch idb_ok ''genesis'' ''am'' text_only_payload commentary_only_store))
        ''genesis-1-am'' = Some (ChapterEntry rows True)"
    and 2: "find_verse 1 rows = Some r"
    and 3: "rest r ''commentary_text'' = Some (JStr ''C'')"
    and 4: "\<forall>k x. rest ?v k = Some x \<longrightarrow> rest r k = Some x"
    by (simp add: genesis_1_am) blast
  from 4 have "rest r ''verse_text'' = Some (JStr ''A'')" by simp
  with 1 2 3 show "\<exists>rows r. map_of (fst (saveBookChaptersInBatch idb_ok ''genesis'' ''am'' text_only_payload commentary_only_store))
        ''genesis-1-am'' = Some (ChapterEntry rows True)
      \<and> find_verse 1 rows = Some r
      \<and> rest r ''verse_text'' = Some (JStr ''A'') \<and> rest r ''commentary_text'' = Some (JStr ''C'')"
    by blast
qed

text \<open>
  Claim C3 (a book is saved atomically). The writes of one call go through one
  transaction, and the store after the call is one of two: every touched chapter holds
  its merged record and no other key changed, or the store is the one the call started
  from. In the first case the call returns no error and one write per touched chapter.
  In the second case it returns an error and no write, unless the engine aborted the
  transaction at commit: then the call never returns, and no error is reported.
\<close>

theorem saveBook_outcomes:
  assumes "(st', res) = saveBookChaptersInBatch env bookId language p st"
  shows "(case res of
            Some r \<Rightarrow>
              (error r = None \<and> savedCount r = length (touched_chapters p)
               \<and> (\<forall>c \<in> set (touched_chapters p).
                     map_of st' (chapter_key bookId c language) =
                       Some (ChapterEntry
                         (merge_chapter p c (existing_rows (map_of st (chapter_key bookId c language)))) True))
               \<and> (\<forall>k. (\<forall>c \<in> set (touched_chapters p). k \<noteq> chapter_key bookId c language)
                     \<longrightarrow> map_of st' k = map_of st k))
              \<or> (error r \<noteq> None \<and> savedCount r = 0 \<and> st' = st)
          | None \<Rightarrow> st' = st)
       \<and> (res = None \<longleftrightarrow>
            (nonempty (verses p) \<or> nonempty (commentaries p)) \<and> open_error env = None
            \<and> (\<exists>e. txn_error env = Some (CommitAborts e)))"
proof
  show "res = None \<longleftrightarrow>
          (nonempty (verses p) \<or> nonempty (commentaries p)) \<and> open_error env = None
          \<and> (\<exists>e. txn_error env = Some (CommitAborts e))"
    using assms
    by (auto simp: saveBookChaptersInBatch_def Let_def split: if_splits option.splits txn_failure.splits)
next
  let ?t = "fold (put_chapter bookId language p) (touched_chapters p) (transaction st)"
  show "case res of
            Some r \<Rightarrow>
              (error r = None \<and> savedCount r = length (touched_chapters p)
               \<and> (\<forall>c \<in> set (touched_chapters p).
                     map_of st' (chapter_key bookId c language) =
                       Some (ChapterEntry
                         (merge_chapter p c (existing_rows (map_of st (chapter_key bookId c language)))) True))
               \<and> (\<forall>k. (\<forall>c \<in> set (touched_chapters p). k \<noteq> chapter_key bookId c language)
                     \<longrightarrow> map_of st' k = map_of st k))
              \<or> (error r \<noteq> None \<and> savedCount r = 0 \<and> st' = st)
          | None \<Rightarrow> st' = st"
  proof (cases res)
    case None
    with assms have "st' = st"
      by (auto simp: saveBookChaptersInBatch_def Let_def committed_fold_put transaction_def
            split: if_splits option.splits txn_failure.splits)
    with None show ?thesis by simp
  next
    case (Some r)
    show ?thesis
    proof (cases "error r")
      case (Some err)
      with assms \<open>res = Some r\<close> have "st' = st" "savedCount r = 0"
        by (auto simp: saveBookChaptersInBatch_def Let_def committed_fold_put transaction_def
              split: if_splits option.splits txn_failure.splits)
      with Some \<open>res = Some r\<close> show ?thesis by simp
    next
      case None
      with assms \<open>res = Some r\<close>
      have r: "st' = working ?t" "savedCount r = length (touched_chapters p)"
        by (auto simp: saveBookChaptersInBatch_def Let_def
              split: if_splits option.splits txn_failure.splits)
      have "map_of (working ?t) (chapter_key bookId c language) =
          Some (ChapterEntry (merge_chapter p c (existing_rows (map_of st (chapter_key bookId c language)))) True)"
        if "c \<in> set (touched_chapters p)" for c
        using working_fold_put_same [OF distinct_touched_chapters that, where t = "transaction st"]
        by (simp add: transaction_def)
      moreover have "map_of (working ?t) k = map_of st k"
        if "\<forall>c \<in> set (touched_chapters p). k \<noteq> chapter_key bookId c language" for k
        using working_fold_put_other [OF that, where t = "transaction st"]
        by (simp add: transaction_def)
      ultimately show ?thesis using None r \<open>res = Some r\<close> by simp
    qed
  qed
qed

text \<open>
  Claim C8 (merge idempotence). Saving the same payload for a book twice in a row, under
  the same outcome of the storage engine, leaves the store that saving it once leaves:
  the same rows in the same order under every key, with the same \<^verbatim>\<open>isDownloaded\<close> flags.
\<close>

theorem saveBook_idempotent:
  "fst (saveBookChaptersInBatch env bookId language p
          (fst (saveBookChaptersInBatch env bookId language p st)))
     = fst (saveBookChaptersInBatch env bookId language p st)"
  by (rule saveBook_twice)

lemma touched_two_chapters: "touched_chapters two_chapter_payload = [2, 1]"
  by (simp add: touched_chapters_def two_chapter_payload_def elems_def set_add_def)

lemma genesis_2_am: "chapter_key ''genesis'' 2 ''am'' = ''genesis-2-am''"
  by (simp add: chapter_key_def show_int_def show_nat.simps digit_char_def)

lemma merge_two_chapters:
  "merge_chapter two_chapter_payload 1
     [\<lparr>chapter_num = 1, verse_num = 1, rest = [''verse_text'' \<mapsto> JStr ''A'']\<rparr>]
   = [\<lparr>chapter_num = 1, verse_num = 1,
       rest = [''verse_text'' \<mapsto> JStr ''A'', ''commentary_text'' \<mapsto> JStr ''C'']\<rparr>]"
  "merge_chapter two_chapter_payload 2 []
   = [\<lparr>chapter_num = 2, verse_num = 1, rest = [''verse_text'' \<mapsto> JStr ''B'']\<rparr>]"
  by (simp_all add: merge_chapter_def two_chapter_payload_def nonempty_def elems_def
        load_existing_def merge_commentary_def merge_verse_def existing_props_def get_prop_def)

theorem saveBook_outcomes_witness:
  "(\<exists>r. snd (saveBookChaptersInBatch idb_ok ''genesis'' ''am'' two_chapter_payload text_only_store) = Some r
        \<and> error r = None \<and> savedCount r = 2)
   \<and> map_of (fst (saveBookChaptersInBatch idb_ok ''genesis'' ''am'' two_chapter_payload text_only_store))
         ''genesis-1-am''
       = Some (ChapterEntry [\<lparr>chapter_num = 1, verse_num = 1,
            rest = [''verse_text'' \<mapsto> JStr ''A'', ''commentary_text'' \<mapsto> JStr ''C'']\<rparr>] True)
   \<and> map_of (fst (saveBookChaptersInBatch idb_ok ''genesis'' ''am'' two_chapter_payload text_only_store))
         ''genesis-2-am''
       = Some (ChapterEntry [\<lparr>chapter_num = 2, verse_num = 1,
            rest = [''verse_text'' \<mapsto> JStr ''B'']\<rparr>] True)
   \<and> saveBookChaptersInBatch quota_full ''genesis'' ''am'' two_chapter_payload text_only_store
       = (text_only_store, Some \<lparr>savedCount = 0, error = Some transaction_inactive\<rparr>)
   \<and> saveBookChaptersInBatch commit_aborted ''genesis'' ''am'' two_chapter_payload text_only_store
       = (text_only_store, None)"
proof -
  let ?ok = "saveBookChaptersInBatch idb_ok ''genesis'' ''am'' two_chapter_payload text_only_store"
  let ?full = "saveBookChaptersInBatch quota_full ''genesis'' ''am'' two_chapter_payload text_only_store"
  let ?aborted = "saveBookChaptersInBatch commit_aborted ''genesis'' ''am'' two_chapter_payload text_only_store"
  have ne: "nonempty (verses two_chapter_payload)"
    by (simp add: two_chapter_payload_def nonempty_def)
  have r1: "snd ?ok = Some \<lparr>savedCount = 2, error = None\<rparr>"
    using ne by (simp add: saveBookChaptersInBatch_def idb_ok_def Let_def touched_two_chapters)
  have r2: "snd ?full = Some \<lparr>savedCount = 0, error = Some transaction_inactive\<rparr>"
    using ne by (simp add: saveBookChaptersInBatch_def quota_full_def Let_def touched_two_chapters)
  have r3: "snd ?aborted = None"
    using ne by (simp add: saveBookChaptersInBatch_def commit_aborted_def Let_def)
  have old: "existing_rows (map_of text_only_store ''genesis-1-am'')
      = [\<lparr>chapter_num = 1, verse_num = 1, rest = [''verse_text'' \<mapsto> JStr ''A'']\<rparr>]"
    "existing_rows (map_of text_only_store ''genesis-2-am'') = []"
    by (simp_all add: text_only_store_def)
  from saveBook_outcomes [OF prod.collapse, where env = idb_ok and bookId = "''genesis''"
      and language = "''am''" and p = two_chapter_payload and st = text_only_store] r1
  have "\<forall>c \<in> set (touched_chapters two_chapter_payload).
          map_of (fst ?ok) (chapter_key ''genesis'' c ''am'') =
            Some (ChapterEntry
              (merge_chapter two_chapter_payload c
                 (existing_rows (map_of text_only_store (chapter_key ''genesis'' c ''am'')))) True)"
    by simp
  then have w: "map_of (fst ?ok) ''genesis-1-am''
       = Some (ChapterEntry [\<lparr>chapter_num = 1, verse_num = 1,
            rest = [''verse_text'' \<mapsto> JStr ''A'', ''commentary_text'' \<mapsto> JStr ''C'']\<rparr>] True)"
    "map_of (fst ?ok) ''genesis-2-am''
       = Some (ChapterEntry [\<lparr>chapter_num = 2, verse_num = 1,
            rest = [''verse_text'' \<mapsto> JStr ''B'']\<rparr>] True)"
    by (simp_all add: touched_two_chapters genesis_1_am genesis_2_am old merge_two_chapters)
  from saveBook_outcomes [OF prod.collapse, where env = quota_full and bookId = "''genesis''"
      and language = "''am''" and p = two_chapter_payload and st = text_only_store] r2
  have "fst ?full = text_only_store" by simp
  with r2 have f: "?full = (text_only_store, Some \<lparr>savedCount = 0, error = Some transaction_inactive\<rparr>)"
    by (simp add: prod_eq_iff)
  from saveBook_outcomes [OF prod.collapse, where env = commit_aborted and bookId = "''genesis''"
      and language = "''am''" and p = two_chapter_payload and st = text_only_store] r3
  have "fst ?aborted = text_only_store" by simp
  with r3 have a: "?aborted = (text_only_store, None)" by (simp add: prod_eq_iff)
  from r1 w f a show ?thesis by simp
qed

theorem saveBook_idempotent_witness:
  "fst (saveBookChaptersInBatch idb_ok ''genesis'' ''am'' commentary_only_payload
          (fst (saveBookChaptersInBatch idb_ok ''genesis'' ''am'' commentary_only_payload text_only_store)))
     = fst (saveBookChaptersInBatch idb_ok ''genesis'' ''am'' commentary_only_payload text_only_store)"
  by (rule saveBook_idempotent)

section \<open>Properties of clearing a language\<close>

lemma ends_with_iff: "ends_with key s \<longleftrightarrow> (\<exists>zs. key = zs @ s)"
proof
  assume "ends_with key s"
  then have "key = take (length key - length s) key @ s"
    unfolding ends_with_def by (metis append_take_drop_id)
  then show "\<exists>zs. key = zs @ s" ..
next
  assume "\<exists>zs. key = zs @ s"
  then show "ends_with key s" by (auto simp: ends_with_def)
qed

lemma crossrefs_key_no_match: "\<not> ends_with (''core-crossrefs_'' @ l) (''-'' @ l)"
proof
  assume "ends_with (''core-crossrefs_'' @ l) (''-'' @ l)"
  then obtain zs where "''core-crossrefs_'' @ l = zs @ ''-'' @ l" unfolding ends_with_iff ..
  then have "''core-crossrefs_'' @ l = (zs @ ''-'') @ l" by simp
  then have "''core-crossrefs_'' = zs @ ''-''" by (simp only: append_same_eq)
  then have "last ''core-crossrefs_'' = last (zs @ ''-'')" by simp
  then show False by simp
qed

lemma last_separator:
  assumes "xs @ c # ys = xs' @ c # ys'" "c \<notin> set ys" "c \<notin> set ys'"
  shows "ys = ys'"
proof -
  from assms(1) have "rev (xs @ c # ys) = rev (xs' @ c # ys')" by simp
  then have "rev ys @ c # rev xs = rev ys' @ c # rev xs'" by simp
  then have "takeWhile (\<lambda>x. x \<noteq> c) (rev ys @ c # rev xs) = takeWhile (\<lambda>x. x \<noteq> c) (rev ys' @ c # rev xs')"
    by simp
  moreover have "takeWhile (\<lambda>x. x \<noteq> c) (rev zs @ c # ws) = rev zs" if "c \<notin> set zs" for zs ws
    using that by (auto simp: takeWhile_tail takeWhile_eq_all_conv)
  ultimately have "rev ys = rev ys'" using assms(2,3) by simp
  then show ?thesis by simp
qed

lemma ends_with_language:
  assumes "ends_with (pre @ ''-'' @ l') (''-'' @ l)" "CHR ''-'' \<notin> set l" "CHR ''-'' \<notin> set l'"
  shows "l' = l"
proof -
  from assms(1) obtain zs where "pre @ ''-'' @ l' = zs @ ''-'' @ l" unfolding ends_with_iff ..
  then have "pre @ CHR ''-'' # l' = zs @ CHR ''-'' # l" by simp
  then show ?thesis using assms(3,2) by (rule last_separator)
qed

lemma chapter_key_other_language:
  assumes "CHR ''-'' \<notin> set l" "CHR ''-'' \<notin> set l'" "l' \<noteq> l"
  shows "\<not> ends_with (chapter_key b c l') (''-'' @ l)"
proof
  assume "ends_with (chapter_key b c l') (''-'' @ l)"
  then have "ends_with ((b @ ''-'' @ show_int c) @ ''-'' @ l') (''-'' @ l)"
    by (simp add: chapter_key_def)
  from ends_with_language [OF this assms(1,2)] assms(3) show False by simp
qed

lemma audio_key_other_language:
  assumes "CHR ''-'' \<notin> set l" "CHR ''-'' \<notin> set l'" "l' \<noteq> l"
  shows "\<not> ends_with (audio_key b c l') (''-'' @ l)"
proof
  assume "ends_with (audio_key b c l') (''-'' @ l)"
  then have "ends_with ((''audio-'' @ b @ ''-'' @ show_int c) @ ''-'' @ l') (''-'' @ l)"
    by (simp add: audio_key_def)
  from ends_with_language [OF this assms(1,2)] assms(3) show False by simp
qed

lemma map_of_filter_distinct:
  assumes "distinct (map fst entries)"
  shows "map_of (filter keep entries) key =
     (case map_of entries key of
        Some x \<Rightarrow> (if keep (key, x) then Some x else None)
      | None \<Rightarrow> None)"
  using assms
proof (induction entries)
  case Nil
  then show ?case by simp
next
  case (Cons a entries)
  then show ?case
    by (cases a) (auto simp: map_of_eq_None_iff image_iff split: option.splits)
qed

lemma filter_delete_no_match:
  "\<not> P' k \<Longrightarrow> filter (\<lambda>kv. P' (fst kv) \<and> Q (snd kv)) (AList.delete k xs) = filter (\<lambda>kv. P' (fst kv) \<and> Q (snd kv)) xs"
  by (induction xs) (auto simp: AList.delete_eq)

lemma count_dash_append: "length (filter (\<lambda>x. x = c) (xs @ ys)) = length (filter (\<lambda>x. x = c) xs) + length (filter (\<lambda>x. x = c) ys)"
  by simp

lemma no_dash_count: "c \<notin> set xs \<Longrightarrow> length (filter (\<lambda>x. x = c) xs) = 0"
  by (induction xs) auto

lemma chapter_key_not_crossrefs:
  assumes "CHR ''-'' \<notin> set l"
  shows "chapter_key b c l' \<noteq> ''core-crossrefs_'' @ l"
proof
  let ?n = "\<lambda>xs. length (filter (\<lambda>x. x = CHR ''-'') xs)"
  assume "chapter_key b c l' = ''core-crossrefs_'' @ l"
  then have "?n (chapter_key b c l') = ?n (''core-crossrefs_'' @ l)" by simp
  moreover have "?n (''core-crossrefs_'' @ l) = 1" using no_dash_count [OF assms] by simp
  moreover have "?n (chapter_key b c l') \<ge> 2" by (simp add: chapter_key_def)
  ultimately show False by simp
qed

lemma audio_key_not_crossrefs:
  assumes "CHR ''-'' \<notin> set l"
  shows "audio_key b c l' \<noteq> ''core-crossrefs_'' @ l"
proof
  let ?n = "\<lambda>xs. length (filter (\<lambda>x. x = CHR ''-'') xs)"
  assume "audio_key b c l' = ''core-crossrefs_'' @ l"
  then have "?n (audio_key b c l') = ?n (''core-crossrefs_'' @ l)" by simp
  moreover have "?n (''core-crossrefs_'' @ l) = 1" using no_dash_count [OF assms] by simp
  moreover have "?n (audio_key b c l') \<ge> 2" by (simp add: audio_key_def)
  ultimately show False by simp
qed

lemma clear_ok_store:
  assumes "open_error env = None" "txn_error env = None"
  shows "clearDownloadedDataForLanguage env l st =
     (filter (\<lambda>kv. \<not> to_clear l kv) (AList.delete (''core-crossrefs_'' @ l) st),
      \<lparr>success = True, clearedCount = length (filter (to_clear l) st)\<rparr>)"
proof -
  have "filter (to_clear l) (AList.delete (''core-crossrefs_'' @ l) st) = filter (to_clear l) st"
    unfolding to_clear_def
    by (rule filter_delete_no_match [where P' = "\<lambda>k. ends_with k (''-'' @ l)"])
       (rule crossrefs_key_no_match)
  with assms show ?thesis
    by (simp add: clearDownloadedDataForLanguage_def Let_def transaction_def)
qed

lemma map_of_cleared:
  assumes "distinct (map fst st)"
  shows "map_of (filter (\<lambda>kv. \<not> to_clear l kv) (AList.delete (''core-crossrefs_'' @ l) st)) k =
     (if k = ''core-crossrefs_'' @ l then None
      else case map_of st k of
             None \<Rightarrow> None
           | Some v \<Rightarrow> if ends_with k (''-'' @ l) \<and> is_downloaded v then None else Some v)"
proof -
  from assms have "distinct (map fst (AList.delete (''core-crossrefs_'' @ l) st))"
    by (rule distinct_delete)
  then show ?thesis
    by (simp add: map_of_filter_distinct delete_conv' to_clear_def split: option.splits)
qed

text \<open>
  Claim C9 (what clearing a language deletes). When the database opens and the
  transaction completes, \<^const>\<open>clearDownloadedDataForLanguage\<close> reports success, the
  store afterwards has lost exactly the key \<^verbatim>\<open>core-crossrefs_<lang>\<close> and the records
  whose key ends with \<^verbatim>\<open>-<lang>\<close> and whose \<^verbatim>\<open>isDownloaded\<close> is \<^verbatim>\<open>true\<close>,
  and \<open>clearedCount\<close> is the number of records the cursor deleted. Every other record
  is kept as it was: the records of that language that are not flagged (audio URLs among
  them, which carry no flag), and the chapter and audio records of any other language.
\<close>

theorem clear_scopes_correctly:
  assumes "open_error env = None" and "txn_error env = None"
    and "distinct (map fst st)"
    and "(st', res) = clearDownloadedDataForLanguage env lang st"
  shows "success res
     \<and> clearedCount res = length (filter (to_clear lang) st)
     \<and> (\<forall>k. map_of st' k =
           (if k = ''core-crossrefs_'' @ lang then None
            else case map_of st k of
                   None \<Rightarrow> None
                 | Some v \<Rightarrow> if ends_with k (''-'' @ lang) \<and> is_downloaded v then None else Some v))
     \<and> (\<forall>b c l. CHR ''-'' \<notin> set lang \<and> CHR ''-'' \<notin> set l \<and> l \<noteq> lang \<longrightarrow>
           map_of st' (chapter_key b c l) = map_of st (chapter_key b c l)
           \<and> map_of st' (audio_key b c l) = map_of st (audio_key b c l))"
proof -
  from assms(4) have st': "st' = filter (\<lambda>kv. \<not> to_clear lang kv) (AList.delete (''core-crossrefs_'' @ lang) st)"
    and res: "res = \<lparr>success = True, clearedCount = length (filter (to_clear lang) st)\<rparr>"
    unfolding clear_ok_store [OF assms(1,2)] by simp_all
  have m: "map_of st' k =
           (if k = ''core-crossrefs_'' @ lang then None
            else case map_of st k of
                   None \<Rightarrow> None
                 | Some v \<Rightarrow> if ends_with k (''-'' @ lang) \<and> is_downloaded v then None else Some v)" for k
    unfolding st' by (rule map_of_cleared [OF assms(3)])
  have o: "map_of st' (chapter_key b c l) = map_of st (chapter_key b c l)
           \<and> map_of st' (audio_key b c l) = map_of st (audio_key b c l)"
    if "CHR ''-'' \<notin> set lang \<and> CHR ''-'' \<notin> set l \<and> l \<noteq> lang" for b c l
    using that chapter_key_other_language [of lang l b c] audio_key_other_language [of lang l b c]
      chapter_key_not_crossrefs [of lang b c l] audio_key_not_crossrefs [of lang b c l]
    by (simp add: m split: option.splits)
  from res m o show ?thesis by simp
qed

lemma ends_with_am:
  "ends_with ''genesis-1-am'' ''-am''" "ends_with ''genesis-2-am'' ''-am''"
  "\<not> ends_with ''genesis-1-en'' ''-am''" "ends_with ''audio-genesis-1-am'' ''-am''"
  "\<not> ends_with ''core-crossrefs_en'' ''-am''"
  by (simp_all add: ends_with_def)

theorem clear_scopes_correctly_witness:
  "(let st' = fst (clearDownloadedDataForLanguage cursor_ok ''am'' two_language_store);
        res = snd (clearDownloadedDataForLanguage cursor_ok ''am'' two_language_store)
    in success res \<and> clearedCount res = 1
       \<and> map_of st' ''genesis-1-am'' = None
       \<and> map_of st' ''core-crossrefs_am'' = None
       \<and> map_of st' ''genesis-2-am'' = map_of two_language_store ''genesis-2-am''
       \<and> map_of st' ''audio-genesis-1-am'' = map_of two_language_store ''audio-genesis-1-am''
       \<and> map_of st' ''genesis-1-en'' = map_of two_language_store ''genesis-1-en''
       \<and> map_of st' ''core-crossrefs_en'' = map_of two_language_store ''core-crossrefs_en'')"
proof -
  let ?st' = "fst (clearDownloadedDataForLanguage cursor_ok ''am'' two_language_store)"
  let ?res = "snd (clearDownloadedDataForLanguage cursor_ok ''am'' two_language_store)"
  have env: "open_error cursor_ok = None" "txn_error cursor_ok = None"
    by (simp_all add: cursor_ok_def)
  have d: "distinct (map fst two_language_store)"
    by (simp add: two_language_store_def)
  have n: "length (filter (to_clear ''am'') two_language_store) = 1"
    by (simp add: two_language_store_def to_clear_def ends_with_def)
  note th = clear_scopes_correctly [OF env d prod.collapse, where lang = "''am''"]
  from th have "success ?res" "clearedCount ?res = 1" by (simp_all add: n)
  moreover from th have "map_of ?st' ''genesis-1-am'' = None"
    by (simp add: ends_with_am two_language_store_def)
  moreover from th have "map_of ?st' ''core-crossrefs_am'' = None"
    by simp
  moreover from th have "map_of ?st' ''genesis-2-am'' = map_of two_language_store ''genesis-2-am''"
    by (simp add: ends_with_am two_language_store_def)
  moreover from th have "map_of ?st' ''audio-genesis-1-am'' = map_of two_language_store ''audio-genesis-1-am''"
    by (simp add: ends_with_am two_language_store_def)
  moreover from th have "map_of ?st' ''genesis-1-en'' = map_of two_language_store ''genesis-1-en''"
    by (simp add: ends_with_am two_language_store_def)
  moreover from th have "map_of ?st' ''core-crossrefs_en'' = map_of two_language_store ''core-crossrefs_en''"
    by (simp add: ends_with_am two_language_store_def)
  ultimately show ?thesis by (simp add: Let_def)
qed

section \<open>Properties of the paginated fetches\<close>


lemma poll_answer: "poll oc = answer oc 0"
  by (simp add: poll_def answer_def)

lemma answer_later: "answer (later oc) k = answer oc (Suc k)"
  by (cases oc) (simp_all add: answer_def later_def)

lemma upt_from: "k \<le> n \<Longrightarrow> [k..<Suc n] = k # [Suc k..<Suc n]"
  by (simp add: upt_conv_Cons)

lemma nonempty_Some: "nonempty (Some xs) \<longleftrightarrow> xs \<noteq> []" and elems_Some: "elems (Some xs) = xs"
  by (simp_all add: nonempty_def elems_def)

lemma pageSize_pos: "0 < pageSize"
  by (simp add: pageSize_def)

lemma mock_db_at: "(k * pageSize) div pageSize = k"
  by (simp add: pageSize_def)

text \<open>The direct fetch of a book, started anywhere in the pagination.\<close>

lemma fetch_verses_from_pages:
  assumes "\<forall>i<n. length (vp (k + i)) = pageSize" "length (vp (k + n)) < pageSize"
    and "\<forall>j\<le>n. \<not> answer oc j"
  shows "fetch_verses_from (\<lambda>offset. QueryReply (Some (vp (offset div pageSize))) None) oc
           (k * pageSize) acc tr
         = Some (tr @ map (\<lambda>i. Request (i * pageSize)) [k..<Suc (k + n)],
                 \<lparr>result_data = Some (acc @ concat (map vp [k..<Suc (k + n)])), result_error = None\<rparr>)"
  using assms
proof (induction n arbitrary: k oc acc tr)
  case 0
  then show ?case
    by (subst fetch_verses_from.simps)
       (auto simp: poll_answer mock_db_at rejects_def nonempty_Some elems_Some)
next
  case (Suc n)
  from Suc.prems(1) have full: "length (vp k) = pageSize" by (metis add.right_neutral zero_less_Suc)
  then have ne: "vp k \<noteq> []" using pageSize_pos by auto
  from Suc.prems(3) have nc: "\<not> answer oc 0" by simp
  have "\<forall>i<n. length (vp (Suc k + i)) = pageSize" using Suc.prems(1) by (metis Suc_less_eq add_Suc_shift)
  moreover have "length (vp (Suc k + n)) < pageSize" using Suc.prems(2) by simp
  moreover have "\<forall>j\<le>n. \<not> answer (later oc) j" using Suc.prems(3) by (simp add: answer_later)
  ultimately have IH: "fetch_verses_from (\<lambda>offset. QueryReply (Some (vp (offset div pageSize))) None) (later oc)
           (Suc k * pageSize) (acc @ vp k) (tr @ [Request (k * pageSize)])
         = Some ((tr @ [Request (k * pageSize)]) @ map (\<lambda>i. Request (i * pageSize)) [Suc k..<Suc (Suc k + n)],
                 \<lparr>result_data = Some ((acc @ vp k) @ concat (map vp [Suc k..<Suc (Suc k + n)])), result_error = None\<rparr>)"
    by (rule Suc.IH)
  have u: "[k..<Suc (k + Suc n)] = k # [Suc k..<Suc (Suc k + n)]"
    by (simp add: upt_conv_Cons)
  have step: "fetch_verses_from (\<lambda>offset. QueryReply (Some (vp (offset div pageSize))) None) oc
           (k * pageSize) acc tr
      = fetch_verses_from (\<lambda>offset. QueryReply (Some (vp (offset div pageSize))) None) (later oc)
           (Suc k * pageSize) (acc @ vp k) (tr @ [Request (k * pageSize)])"
    by (subst fetch_verses_from.simps)
       (simp add: poll_answer nc mock_db_at rejects_def nonempty_Some elems_Some ne full add.commute)
  show ?case unfolding step IH u by simp
qed

lemma fetch_book_from_pages:
  assumes "\<forall>i<n. length (vp (k + i)) = pageSize \<or> length (cp (k + i)) = pageSize"
    and "length (vp (k + n)) < pageSize" "length (cp (k + n)) < pageSize"
    and "\<forall>j\<le>n. \<not> answer oc j"
  shows "fetch_book_from (\<lambda>page. book_page_reply (vp page) (cp page)) oc k av ac tr
         = Some (tr @ map Request [k..<Suc (k + n)],
                 Returns \<lparr>result_data = Some \<lparr>verses = Some (av @ concat (map vp [k..<Suc (k + n)])),
                                             commentaries = Some (ac @ concat (map cp [k..<Suc (k + n)]))\<rparr>,
                          result_error = None\<rparr>)"
  using assms
proof (induction n arbitrary: k oc av ac tr)
  case 0
  then show ?case
    by (subst fetch_book_from.simps)
       (simp add: poll_answer book_page_reply_def elems_Some)
next
  case (Suc n)
  from Suc.prems(1) have full: "length (vp k) = pageSize \<or> length (cp k) = pageSize"
    by (metis add.right_neutral zero_less_Suc)
  from Suc.prems(4) have nc: "\<not> answer oc 0" by simp
  have "\<forall>i<n. length (vp (Suc k + i)) = pageSize \<or> length (cp (Suc k + i)) = pageSize"
    using Suc.prems(1) by (metis Suc_less_eq add_Suc_shift)
  moreover have "length (vp (Suc k + n)) < pageSize" "length (cp (Suc k + n)) < pageSize"
    using Suc.prems(2,3) by simp_all
  moreover have "\<forall>j\<le>n. \<not> answer (later oc) j" using Suc.prems(4) by (simp add: answer_later)
  ultimately have IH: "fetch_book_from (\<lambda>page. book_page_reply (vp page) (cp page)) (later oc) (Suc k)
           (av @ vp k) (ac @ cp k) (tr @ [Request k])
         = Some ((tr @ [Request k]) @ map Request [Suc k..<Suc (Suc k + n)],
                 Returns \<lparr>result_data = Some \<lparr>verses = Some ((av @ vp k) @ concat (map vp [Suc k..<Suc (Suc k + n)])),
                                             commentaries = Some ((ac @ cp k) @ concat (map cp [Suc k..<Suc (Suc k + n)]))\<rparr>,
                          result_error = None\<rparr>)"
    by (rule Suc.IH)
  have u: "[k..<Suc (k + Suc n)] = k # [Suc k..<Suc (Suc k + n)]"
    by (simp add: upt_conv_Cons)
  have step: "fetch_book_from (\<lambda>page. book_page_reply (vp page) (cp page)) oc k av ac tr
      = fetch_book_from (\<lambda>page. book_page_reply (vp page) (cp page)) (later oc) (Suc k)
           (av @ vp k) (ac @ cp k) (tr @ [Request k])"
    using full
    by (subst fetch_book_from.simps)
       (simp add: poll_answer nc book_page_reply_def elems_Some)
  show ?case unfolding step IH u by simp
qed

lemma requests_append: "requests (xs @ ys) = requests xs @ requests ys"
  by (simp add: requests_def)

lemma requests_Request: "requests [Request n] = [n]"
  by (simp add: requests_def)

lemma requests_OnProgress: "requests [OnProgress p t] = []"
  by (simp add: requests_def)

lemma requests_map_Request: "requests (map Request ns) = ns"
  by (induction ns) (simp_all add: requests_def)

lemma upt_front: "[k..<k + Suc n] = k # [Suc k..<Suc k + n]"
  by (simp add: upt_conv_Cons)

lemma fetch_verses_from_cancelled:
  assumes "\<forall>i<n. continues_direct (db ((k + i) * pageSize))"
    and "\<forall>j<n. \<not> answer oc j" "answer oc n"
  shows "fetch_verses_from db oc (k * pageSize) acc tr
         = Some (tr @ map (\<lambda>i. Request (i * pageSize)) [k..<k + n],
                 \<lparr>result_data = None, result_error = Some cancelled_book\<rparr>)"
  using assms
proof (induction n arbitrary: k oc acc tr)
  case 0
  then show ?case by (subst fetch_verses_from.simps) (simp add: poll_answer)
next
  case (Suc n)
  from Suc.prems(1) have "continues_direct (db (k * pageSize))"
    by (metis add.right_neutral zero_less_Suc)
  then obtain page_rows query_error where r: "db (k * pageSize) = QueryReply page_rows query_error"
    and c: "\<not> rejects query_error" "nonempty page_rows" "\<not> length (elems page_rows) < pageSize"
    by (auto simp: continues_direct_def split: query_reply.splits)
  from Suc.prems(2) have nc: "\<not> answer oc 0" by simp
  have "\<forall>i<n. continues_direct (db ((Suc k + i) * pageSize))"
    using Suc.prems(1) by (metis Suc_less_eq add_Suc_shift)
  moreover have "\<forall>j<n. \<not> answer (later oc) j" "answer (later oc) n"
    using Suc.prems(2,3) by (simp_all add: answer_later)
  ultimately have IH: "fetch_verses_from db (later oc) (Suc k * pageSize) (acc @ elems page_rows)
           (tr @ [Request (k * pageSize)])
         = Some ((tr @ [Request (k * pageSize)]) @ map (\<lambda>i. Request (i * pageSize)) [Suc k..<Suc k + n],
                 \<lparr>result_data = None, result_error = Some cancelled_book\<rparr>)"
    by (rule Suc.IH)
  have step: "fetch_verses_from db oc (k * pageSize) acc tr
      = fetch_verses_from db (later oc) (Suc k * pageSize) (acc @ elems page_rows)
           (tr @ [Request (k * pageSize)])"
    by (subst fetch_verses_from.simps) (simp add: poll_answer nc r c add.commute)
  show ?case unfolding step IH upt_front by simp
qed

lemma fetch_crossrefs_from_cancelled:
  assumes "\<forall>i<n. continues_direct (db ((k + i) * pageSize))"
    and "\<forall>j<n. \<not> answer oc j" "answer oc n"
  shows "\<exists>tr'. fetch_crossrefs_from db oc onProgress (k * pageSize) page acc tr
           = Some (tr', \<lparr>result_data = None, result_error = Some cancelled_crossrefs\<rparr>)
         \<and> requests tr' = requests tr @ map (\<lambda>i. i * pageSize) [k..<k + n]"
  using assms
proof (induction n arbitrary: k oc page acc tr)
  case 0
  then show ?case by (subst fetch_crossrefs_from.simps) (simp add: poll_answer)
next
  case (Suc n)
  from Suc.prems(1) have "continues_direct (db (k * pageSize))"
    by (metis add.right_neutral zero_less_Suc)
  then obtain page_rows query_error where r: "db (k * pageSize) = QueryReply page_rows query_error"
    and c: "\<not> rejects query_error" "nonempty page_rows" "\<not> length (elems page_rows) < pageSize"
    by (auto simp: continues_direct_def split: query_reply.splits)
  from Suc.prems(2) have nc: "\<not> answer oc 0" by simp
  let ?tr = "(if onProgress then tr @ [OnProgress page (length acc)] else tr) @ [Request (k * pageSize)]"
  have "\<forall>i<n. continues_direct (db ((Suc k + i) * pageSize))"
    using Suc.prems(1) by (metis Suc_less_eq add_Suc_shift)
  moreover have "\<forall>j<n. \<not> answer (later oc) j" "answer (later oc) n"
    using Suc.prems(2,3) by (simp_all add: answer_later)
  ultimately obtain tr' where IH: "fetch_crossrefs_from db (later oc) onProgress (Suc k * pageSize) (page + 1)
           (acc @ elems page_rows) ?tr
         = Some (tr', \<lparr>result_data = None, result_error = Some cancelled_crossrefs\<rparr>)"
    and rq: "requests tr' = requests ?tr @ map (\<lambda>i. i * pageSize) [Suc k..<Suc k + n]"
    using Suc.IH by blast
  have step: "fetch_crossrefs_from db oc onProgress (k * pageSize) page acc tr
      = fetch_crossrefs_from db (later oc) onProgress (Suc k * pageSize) (page + 1)
           (acc @ elems page_rows) ?tr"
    by (subst fetch_crossrefs_from.simps) (simp add: poll_answer nc r c add.commute Let_def)
  have "requests ?tr = requests tr @ [k * pageSize]"
    by (simp add: requests_append requests_Request requests_OnProgress)
  with rq have "requests tr' = requests tr @ map (\<lambda>i. i * pageSize) [k..<k + Suc n]"
    unfolding upt_front by simp
  with step IH show ?case by simp
qed

lemma fetch_book_from_cancelled:
  assumes "\<forall>i<n. continues_book (g (k + i))"
    and "\<forall>j<n. \<not> answer oc j" "answer oc n"
  shows "fetch_book_from g oc k av ac tr
         = Some (tr @ map Request [k..<k + n],
                 Returns \<lparr>result_data = None, result_error = Some cancelled\<rparr>)"
  using assms
proof (induction n arbitrary: k oc av ac tr)
  case 0
  then show ?case by (subst fetch_book_from.simps) (simp add: poll_answer)
next
  case (Suc n)
  from Suc.prems(1) have "continues_book (g k)"
    by (metis add.right_neutral zero_less_Suc)
  then obtain d where r: "reply_error (g k) = None" "reply_data (g k) = Some d" "hasMore d"
    by (auto simp: continues_book_def split: option.splits)
  from Suc.prems(2) have nc: "\<not> answer oc 0" by simp
  have "\<forall>i<n. continues_book (g (Suc k + i))"
    using Suc.prems(1) by (metis Suc_less_eq add_Suc_shift)
  moreover have "\<forall>j<n. \<not> answer (later oc) j" "answer (later oc) n"
    using Suc.prems(2,3) by (simp_all add: answer_later)
  ultimately have IH: "fetch_book_from g (later oc) (Suc k) (av @ elems (verses d)) (ac @ elems (commentaries d))
           (tr @ [Request k])
         = Some ((tr @ [Request k]) @ map Request [Suc k..<Suc k + n],
                 Returns \<lparr>result_data = None, result_error = Some cancelled\<rparr>)"
    by (rule Suc.IH)
  have step: "fetch_book_from g oc k av ac tr
      = fetch_book_from g (later oc) (Suc k) (av @ elems (verses d)) (ac @ elems (commentaries d))
           (tr @ [Request k])"
    by (subst fetch_book_from.simps) (simp add: poll_answer nc r)
  show ?case unfolding step IH upt_front by simp
qed

lemma fetch_refs_from_cancelled:
  assumes "\<forall>i<n. continues_refs (g (k + i))"
    and "\<forall>j<n. \<not> answer oc j" "answer oc n"
  shows "\<exists>tr'. fetch_refs_from g oc onProgress k acc tr
           = Some (tr', Returns \<lparr>result_data = None, result_error = Some cancelled\<rparr>)
         \<and> requests tr' = requests tr @ [k..<k + n]"
  using assms
proof (induction n arbitrary: k oc acc tr)
  case 0
  then show ?case by (subst fetch_refs_from.simps) (simp add: poll_answer)
next
  case (Suc n)
  from Suc.prems(1) have "continues_refs (g k)"
    by (metis add.right_neutral zero_less_Suc)
  then obtain d where r: "reply_error (g k) = None" "reply_data (g k) = Some d" "refsHasMore d"
    by (auto simp: continues_refs_def split: option.splits)
  from Suc.prems(2) have nc: "\<not> answer oc 0" by simp
  let ?tr = "(if onProgress then tr @ [OnProgress (k + 1) (length acc)] else tr) @ [Request k]"
  have "\<forall>i<n. continues_refs (g (Suc k + i))"
    using Suc.prems(1) by (metis Suc_less_eq add_Suc_shift)
  moreover have "\<forall>j<n. \<not> answer (later oc) j" "answer (later oc) n"
    using Suc.prems(2,3) by (simp_all add: answer_later)
  ultimately obtain tr' where IH: "fetch_refs_from g (later oc) onProgress (Suc k)
           (acc @ elems (crossrefs d)) ?tr
         = Some (tr', Returns \<lparr>result_data = None, result_error = Some cancelled\<rparr>)"
    and rq: "requests tr' = requests ?tr @ [Suc k..<Suc k + n]"
    using Suc.IH by blast
  have step: "fetch_refs_from g oc onProgress k acc tr
      = fetch_refs_from g (later oc) onProgress (Suc k) (acc @ elems (crossrefs d)) ?tr"
    by (subst fetch_refs_from.simps) (simp add: poll_answer nc r Let_def)
  have "requests ?tr = requests tr @ [k]"
    by (simp add: requests_append requests_Request requests_OnProgress)
  with rq have "requests tr' = requests tr @ [k..<k + Suc n]"
    unfolding upt_front by simp
  with step IH show ?case by simp
qed

text \<open>
  Claim C4 (pagination terminates). Without cancellation, a gateway that answers \<open>N\<close>
  full pages and then a shorter one makes \<open>fetchAllVersesForBook\<close> ask for exactly the
  \<open>N + 1\<close> pages, in increasing order, and return all their rows in that order with no
  error. This holds for the direct queries, which stop at a page of fewer than
  \<^const>\<open>pageSize\<close> rows, and for the routed ones, which stop when \<^verbatim>\<open>hasMore\<close> is false,
  that is when neither list of the page is full.
\<close>

theorem pagination_terminates:
  assumes "\<forall>j\<le>N. \<not> answer onCancel j"
  shows "((\<forall>i<N. length (vp i) = pageSize) \<and> length (vp N) < pageSize \<longrightarrow>
            fetchAllVersesForBook_direct True
                (\<lambda>offset. QueryReply (Some (vp (offset div pageSize))) None) onCancel
              = Some (map (\<lambda>i. Request (i * pageSize)) [0..<Suc N],
                      \<lparr>result_data = Some (concat (map vp [0..<Suc N])), result_error = None\<rparr>))
       \<and> ((\<forall>i<N. length (vp i) = pageSize \<or> length (cp i) = pageSize)
            \<and> length (vp N) < pageSize \<and> length (cp N) < pageSize \<longrightarrow>
            fetchAllVersesForBook (\<lambda>page. book_page_reply (vp page) (cp page)) onCancel
              = Some (map Request [0..<Suc N],
                      Returns \<lparr>result_data = Some \<lparr>verses = Some (concat (map vp [0..<Suc N])),
                                                  commentaries = Some (concat (map cp [0..<Suc N]))\<rparr>,
                               result_error = None\<rparr>))"
proof (intro conjI impI)
  assume a: "(\<forall>i<N. length (vp i) = pageSize) \<and> length (vp N) < pageSize"
  from fetch_verses_from_pages [of N vp 0 onCancel "[]" "[]"] a assms
  show "fetchAllVersesForBook_direct True
                (\<lambda>offset. QueryReply (Some (vp (offset div pageSize))) None) onCancel
              = Some (map (\<lambda>i. Request (i * pageSize)) [0..<Suc N],
                      \<lparr>result_data = Some (concat (map vp [0..<Suc N])), result_error = None\<rparr>)"
    by (simp add: fetchAllVersesForBook_direct_def)
next
  assume a: "(\<forall>i<N. length (vp i) = pageSize \<or> length (cp i) = pageSize)
            \<and> length (vp N) < pageSize \<and> length (cp N) < pageSize"
  from fetch_book_from_pages [of N vp 0 cp onCancel "[]" "[]" "[]"] a assms
  show "fetchAllVersesForBook (\<lambda>page. book_page_reply (vp page) (cp page)) onCancel
              = Some (map Request [0..<Suc N],
                      Returns \<lparr>result_data = Some \<lparr>verses = Some (concat (map vp [0..<Suc N])),
                                                  commentaries = Some (concat (map cp [0..<Suc N]))\<rparr>,
                               result_error = None\<rparr>)"
    by (simp add: fetchAllVersesForBook_def)
qed

theorem pagination_terminates_witness:
  "fetchAllVersesForBook_direct True
       (\<lambda>offset. QueryReply (Some (two_pages (offset div pageSize))) None) None
     = Some ([Request 0, Request 1000],
             \<lparr>result_data = Some (replicate 1000 sample_row @ [sample_row]), result_error = None\<rparr>)
   \<and> fetchAllVersesForBook (\<lambda>page. book_page_reply (two_pages page) (no_commentary page)) None
     = Some ([Request 0, Request 1],
             Returns \<lparr>result_data = Some \<lparr>verses = Some (replicate 1000 sample_row @ [sample_row]),
                                         commentaries = Some []\<rparr>,
                      result_error = None\<rparr>)"
proof -
  have nc: "\<forall>j\<le>1. \<not> answer None j" by (simp add: answer_def)
  have l: "length (two_pages 0) = pageSize" "length (two_pages 1) < pageSize"
    "length (no_commentary 1) < pageSize"
    by (simp_all add: two_pages_def no_commentary_def pageSize_def)
  have u: "[0..<Suc 1] = [0, 1]" by (simp add: upt_conv_Cons)
  from pagination_terminates [OF nc, of two_pages no_commentary] l
  show ?thesis
    unfolding u by (simp add: two_pages_def no_commentary_def pageSize_def)
qed

text \<open>
  Claim C7 (cancellation in the middle of a pagination). Let \<^verbatim>\<open>onCancel\<close> answer false
  the first \<open>k\<close> times it is asked and true the next time, and let each of the first
  \<open>k\<close> replies announce a further page. Then each of the four paginated fetches asks for
  exactly the pages \<open>0, \<dots>, k - 1\<close> and nothing more, and returns no data and the
  cancellation error: the rows collected so far are dropped.
\<close>

theorem cancellation_mid_pagination:
  assumes "\<forall>j<k. \<not> answer onCancel j" and "answer onCancel k"
  shows "((\<forall>i<k. continues_direct (vdb (i * pageSize))) \<longrightarrow>
            fetchAllVersesForBook_direct True vdb onCancel
              = Some (map (\<lambda>i. Request (i * pageSize)) [0..<k],
                      \<lparr>result_data = None, result_error = Some cancelled_book\<rparr>))
       \<and> ((\<forall>i<k. continues_direct (rdb (i * pageSize))) \<longrightarrow>
            (\<exists>tr. fetchAllCrossRefs_direct True rdb onCancel onProgress
                     = Some (tr, \<lparr>result_data = None, result_error = Some cancelled_crossrefs\<rparr>)
                   \<and> requests tr = map (\<lambda>i. i * pageSize) [0..<k]))
       \<and> ((\<forall>i<k. continues_book (bg i)) \<longrightarrow>
            fetchAllVersesForBook bg onCancel
              = Some (map Request [0..<k],
                      Returns \<lparr>result_data = None, result_error = Some cancelled\<rparr>))
       \<and> ((\<forall>i<k. continues_refs (rg i)) \<longrightarrow>
            (\<exists>tr. fetchAllCrossRefs rg onCancel onProgress
                     = Some (tr, Returns \<lparr>result_data = None, result_error = Some cancelled\<rparr>)
                   \<and> requests tr = [0..<k]))"
proof (intro conjI impI)
  assume "\<forall>i<k. continues_direct (vdb (i * pageSize))"
  with fetch_verses_from_cancelled [of k vdb 0 onCancel "[]" "[]"] assms
  show "fetchAllVersesForBook_direct True vdb onCancel
              = Some (map (\<lambda>i. Request (i * pageSize)) [0..<k],
                      \<lparr>result_data = None, result_error = Some cancelled_book\<rparr>)"
    by (simp add: fetchAllVersesForBook_direct_def)
next
  assume "\<forall>i<k. continues_direct (rdb (i * pageSize))"
  with fetch_crossrefs_from_cancelled [of k rdb 0 onCancel onProgress 1 "[]" "[]"] assms
  show "\<exists>tr. fetchAllCrossRefs_direct True rdb onCancel onProgress
                     = Some (tr, \<lparr>result_data = None, result_error = Some cancelled_crossrefs\<rparr>)
                   \<and> requests tr = map (\<lambda>i. i * pageSize) [0..<k]"
    by (simp add: fetchAllCrossRefs_direct_def requests_def)
next
  assume "\<forall>i<k. continues_book (bg i)"
  with fetch_book_from_cancelled [of k bg 0 onCancel "[]" "[]" "[]"] assms
  show "fetchAllVersesForBook bg onCancel
              = Some (map Request [0..<k],
                      Returns \<lparr>result_data = None, result_error = Some cancelled\<rparr>)"
    by (simp add: fetchAllVersesForBook_def)
next
  assume "\<forall>i<k. continues_refs (rg i)"
  with fetch_refs_from_cancelled [of k rg 0 onCancel onProgress "[]" "[]"] assms
  show "\<exists>tr. fetchAllCrossRefs rg onCancel onProgress
                     = Some (tr, Returns \<lparr>result_data = None, result_error = Some cancelled\<rparr>)
                   \<and> requests tr = [0..<k]"
    by (simp add: fetchAllCrossRefs_def requests_def)
qed

lemma all_less_2: "(\<forall>i<2. P i) \<longleftrightarrow> P 0 \<and> P (Suc 0)"
  by (auto simp: less_Suc_eq numeral_2_eq_2)

theorem cancellation_mid_pagination_witness:
  "fetchAllVersesForBook_direct True
       (\<lambda>offset. QueryReply (Some (five_pages (offset div pageSize))) None) (cancel_after 2)
     = Some ([Request 0, Request 1000], \<lparr>result_data = None, result_error = Some cancelled_book\<rparr>)
   \<and> (\<exists>tr. fetchAllCrossRefs_direct True
              (\<lambda>offset. QueryReply (Some (five_ref_pages (offset div pageSize))) None) (cancel_after 2) True
            = Some (tr, \<lparr>result_data = None, result_error = Some cancelled_crossrefs\<rparr>)
          \<and> requests tr = [0, 1000])
   \<and> fetchAllVersesForBook (\<lambda>page. book_page_reply (five_pages page) (no_commentary page)) (cancel_after 2)
     = Some ([Request 0, Request 1], Returns \<lparr>result_data = None, result_error = Some cancelled\<rparr>)
   \<and> (\<exists>tr. fetchAllCrossRefs (\<lambda>page. crossrefs_page_reply (five_ref_pages page)) (cancel_after 2) True
            = Some (tr, Returns \<lparr>result_data = None, result_error = Some cancelled\<rparr>)
          \<and> requests tr = [0, 1])"
proof -
  have c: "\<forall>j<2. \<not> answer (cancel_after 2) j" "answer (cancel_after 2) 2"
    by (simp_all add: answer_def cancel_after_def)
  have v: "\<forall>i<2. continues_direct (QueryReply (Some (five_pages ((i * pageSize) div pageSize))) None)"
    by (simp add: all_less_2 continues_direct_def rejects_def nonempty_def elems_def five_pages_def pageSize_def)
  have r: "\<forall>i<2. continues_direct (QueryReply (Some (five_ref_pages ((i * pageSize) div pageSize))) None)"
    by (simp add: all_less_2 continues_direct_def rejects_def nonempty_def elems_def five_ref_pages_def pageSize_def)
  have b: "\<forall>i<2. continues_book (book_page_reply (five_pages i) (no_commentary i))"
    by (simp add: all_less_2 continues_book_def book_page_reply_def five_pages_def pageSize_def)
  have g: "\<forall>i<2. continues_refs (crossrefs_page_reply (five_ref_pages i))"
    by (simp add: all_less_2 continues_refs_def crossrefs_page_reply_def five_ref_pages_def pageSize_def)
  have u: "[0..<2] = [0, Suc 0]" by (simp add: upt_conv_Cons numeral_2_eq_2)
  from cancellation_mid_pagination [OF c,
      of "\<lambda>offset. QueryReply (Some (five_pages (offset div pageSize))) None"
         "\<lambda>offset. QueryReply (Some (five_ref_pages (offset div pageSize))) None"
         True
         "\<lambda>page. book_page_reply (five_pages page) (no_commentary page)"
         "\<lambda>page. crossrefs_page_reply (five_ref_pages page)"] v r b g
  show ?thesis unfolding u by (simp add: pageSize_def)
qed

section \<open>The ledger, the quota, the finalization and the flags\<close>

text \<open>
  Claim C2, the ledger is sound. It is not. The handler of \<^verbatim>\<open>fetch_book_full\<close> never
  answers an error, whatever its queries answered. In \<^verbatim>\<open>start(['am-bible', 'am-commentary'])\<close>
  with four books, the query of the verses fails on the server for every book and the
  query of the commentaries succeeds: every book ends with \<^verbatim>\<open>success\<close>, the entries
  \<^verbatim>\<open>am-bible\<close> and \<^verbatim>\<open>am-commentary\<close> are set, and no record of the store holds a verse text.
  In \<^verbatim>\<open>start(['am-ref'])\<close>, the user cancels while the cross-references are being saved:
  the entry \<^verbatim>\<open>am-ref\<close> is set by a run that is cancelled.
\<close>

theorem ledger_set_without_verses:
  "(\<forall>dlVerses dlComm. reply_error (fetch_book_full dlVerses dlComm) = None)
   \<and> map_option (\<lambda>s. (downloadedResources s ''am-bible'', downloadedResources s ''am-commentary'',
                        stored_texts (cache s), messages s, run_log s))
       (start True [''am-bible'', ''am-commentary''] verses_query_fails_schedule idle_state)
     = Some (True, True,
         [(''genesis-1-am'', [(None, Some (JStr ''C''))]),
          (''exodus-1-am'', [(None, Some (JStr ''C''))]),
          (''leviticus-1-am'', [(None, Some (JStr ''C''))]),
          (''numbers-1-am'', [(None, Some (JStr ''C''))])],
         [(''Download process finished.'', ''success'')],
         [Requested ''am'' ''genesis'' 0, Requested ''am'' ''exodus'' 0,
          Requested ''am'' ''leviticus'' 0, Finished ''am'' ''genesis'' Success,
          Finished ''am'' ''exodus'' Success, Finished ''am'' ''leviticus'' Success,
          Requested ''am'' ''numbers'' 0, Finished ''am'' ''numbers'' Success])
   \<and> map_option (\<lambda>s. (downloadedResources s ''am-ref'', messages s, run_log s))
       (start True [''am-ref''] cancel_during_refs_save_schedule idle_state)
     = Some (True, [(''Download process finished.'', ''success'')],
         [RefsRequested ''am'' 0, RefsFinished ''am'' True])"
proof (intro conjI)
  show "\<forall>dlVerses dlComm. reply_error (fetch_book_full dlVerses dlComm) = None"
    by (simp add: fetch_book_full_def Let_def)
  show "map_option (\<lambda>s. (downloadedResources s ''am-bible'', downloadedResources s ''am-commentary'',
                        stored_texts (cache s), messages s, run_log s))
       (start True [''am-bible'', ''am-commentary''] verses_query_fails_schedule idle_state)
     = Some (True, True,
         [(''genesis-1-am'', [(None, Some (JStr ''C''))]),
          (''exodus-1-am'', [(None, Some (JStr ''C''))]),
          (''leviticus-1-am'', [(None, Some (JStr ''C''))]),
          (''numbers-1-am'', [(None, Some (JStr ''C''))])],
         [(''Download process finished.'', ''success'')],
         [Requested ''am'' ''genesis'' 0, Requested ''am'' ''exodus'' 0,
          Requested ''am'' ''leviticus'' 0, Finished ''am'' ''genesis'' Success,
          Finished ''am'' ''exodus'' Success, Finished ''am'' ''leviticus'' Success,
          Requested ''am'' ''numbers'' 0, Finished ''am'' ''numbers'' Success])"
    by code_simp
  show "map_option (\<lambda>s. (downloadedResources s ''am-ref'', messages s, run_log s))
       (start True [''am-ref''] cancel_during_refs_save_schedule idle_state)
     = Some (True, [(''Download process finished.'', ''success'')],
         [RefsRequested ''am'' 0, RefsFinished ''am'' True])"
    by code_simp
qed

text \<open>
  Claim C5, a save that fails because the quota is exceeded cancels the run. It does not:
  in \<^verbatim>\<open>start(['am-bible'])\<close> with four books, the save of the first book fails with
  \<^verbatim>\<open>QuotaExceededError\<close>; the book ends with \<^verbatim>\<open>save_error\<close>, the flag of cancellation is
  not set, and the fourth book, started after that failure, is requested from the network.
  Whatever the outcome of a save, what follows it leaves the flag as it was.
\<close>

theorem quota_failure_does_not_cancel:
  "(\<forall>l b fetched env s.
      cancelDownloadFlag (snd (on_book_saved l b fetched env s)) = cancelDownloadFlag s)
   \<and> map_option (\<lambda>s. (run_log s, messages s))
       (start True [''am-bible''] quota_schedule idle_state)
     = Some ([Requested ''am'' ''genesis'' 0, Requested ''am'' ''exodus'' 0,
              Requested ''am'' ''leviticus'' 0, Finished ''am'' ''genesis'' SaveError,
              Finished ''am'' ''exodus'' Success, Finished ''am'' ''leviticus'' Success,
              Requested ''am'' ''numbers'' 0, Finished ''am'' ''numbers'' Success],
             [(''Download process finished.'', ''warning'')])"
proof
  show "\<forall>l b fetched env s.
      cancelDownloadFlag (snd (on_book_saved l b fetched env s)) = cancelDownloadFlag s"
    by (simp add: on_book_saved_def Let_def finish_def record_entry_def split: option.splits)
  show "map_option (\<lambda>s. (run_log s, messages s))
       (start True [''am-bible''] quota_schedule idle_state)
     = Some ([Requested ''am'' ''genesis'' 0, Requested ''am'' ''exodus'' 0,
              Requested ''am'' ''leviticus'' 0, Finished ''am'' ''genesis'' SaveError,
              Finished ''am'' ''exodus'' Success, Finished ''am'' ''leviticus'' Success,
              Requested ''am'' ''numbers'' 0, Finished ''am'' ''numbers'' Success],
             [(''Download process finished.'', ''warning'')])"
    by code_simp
qed

text \<open>
  Claim C6, the finalization of a language. A failure confined to another language does
  prevent the entries of a language from being set. Once the tracker of success of the run
  is cleared, the finalization of any language writes nothing. In
  \<^verbatim>\<open>start(['am-bible', 'en-bible'])\<close>, the fetch of the first Amharic book fails, every
  other book of the two languages is fetched and saved, nobody cancels: the entry
  \<^verbatim>\<open>en-bible\<close> is not set.
\<close>

theorem failure_in_other_language_blocks:
  "(\<forall>l flags fetchVerses fetchComm s.
      downloadedResources (finalize_books l flags fetchVerses fetchComm (s\<lparr>isSuccess := False\<rparr>))
        = downloadedResources s)
   \<and> map_option (\<lambda>s. (downloadedResources s ''en-bible'', messages s, run_log s))
       (start True [''am-bible'', ''en-bible''] first_fetch_fails_schedule idle_state)
     = Some (False, [(''Download process finished.'', ''warning'')],
         [Requested ''am'' ''genesis'' 0, Requested ''am'' ''exodus'' 0,
          Requested ''am'' ''leviticus'' 0, Finished ''am'' ''genesis'' FetchError,
          Finished ''am'' ''exodus'' Success, Finished ''am'' ''leviticus'' Success,
          Requested ''am'' ''numbers'' 0, Finished ''am'' ''numbers'' Success,
          Requested ''en'' ''genesis'' 0, Requested ''en'' ''exodus'' 0,
          Requested ''en'' ''leviticus'' 0, Finished ''en'' ''genesis'' Success,
          Finished ''en'' ''exodus'' Success, Finished ''en'' ''leviticus'' Success,
          Requested ''en'' ''numbers'' 0, Finished ''en'' ''numbers'' Success])"
proof
  show "\<forall>l flags fetchVerses fetchComm s.
      downloadedResources (finalize_books l flags fetchVerses fetchComm (s\<lparr>isSuccess := False\<rparr>))
        = downloadedResources s"
    by (simp add: finalize_books_def)
  show "map_option (\<lambda>s. (downloadedResources s ''en-bible'', messages s, run_log s))
       (start True [''am-bible'', ''en-bible''] first_fetch_fails_schedule idle_state)
     = Some (False, [(''Download process finished.'', ''warning'')],
         [Requested ''am'' ''genesis'' 0, Requested ''am'' ''exodus'' 0,
          Requested ''am'' ''leviticus'' 0, Finished ''am'' ''genesis'' FetchError,
          Finished ''am'' ''exodus'' Success, Finished ''am'' ''leviticus'' Success,
          Requested ''am'' ''numbers'' 0, Finished ''am'' ''numbers'' Success,
          Requested ''en'' ''genesis'' 0, Requested ''en'' ''exodus'' 0,
          Requested ''en'' ''leviticus'' 0, Finished ''en'' ''genesis'' Success,
          Finished ''en'' ''exodus'' Success, Finished ''en'' ''leviticus'' Success,
          Requested ''en'' ''numbers'' 0, Finished ''en'' ''numbers'' Success])"
    by code_simp
qed



end
